theory Spec2Isabelle
  imports Complex_Main "HOL-Library.Sublist" "HOL-Library.Char_ord" "HOL-Library.List_Lexorder"
begin

section \<open>Python values, exceptions and the dictionary\<close>

text \<open>
  The server stores whatever the client pickles. The model covers \<open>None\<close>, integers,
  finite floats (by their exact rational value), the float not-a-number, complex numbers
  with finite parts, strings and lists. Lists stand for the unhashable values and for the
  containers other than strings. A not-a-number is unequal to every value, itself
  included, so a dictionary finds it only as the same object: \<open>PyNaN\<close> carries the
  identity of the object. Every request is unpickled into new objects, so the
  not-a-number of one request and the not-a-number of another have different
  identities. The infinities and the complex numbers with a part that is not a number
  are not in the model.
\<close>

datatype pyval =
    PyNone
  | PyInt int
  | PyFloat rat
  | PyNaN nat
  | PyComplex rat rat
  | PyStr string
  | PyList "pyval list"

datatype exn =
    TypeError
  | KeyError
  | ValueError
  | ParseException
  | IOError
  | UnpicklingError

text \<open>The value of a number as a complex number, and as a real number (\<open>int\<close>, \<open>float\<close>).\<close>

fun num_val :: "pyval \<Rightarrow> (rat \<times> rat) option" where
  "num_val (PyInt i) = Some (of_int i, 0)"
| "num_val (PyFloat x) = Some (x, 0)"
| "num_val (PyComplex re im) = Some (re, im)"
| "num_val _ = None"

fun real_val :: "pyval \<Rightarrow> rat option" where
  "real_val (PyInt i) = Some (of_int i)"
| "real_val (PyFloat x) = Some x"
| "real_val _ = None"

text \<open>\<open>a is b\<close>, where it can differ from \<open>a == b\<close> being true.\<close>

fun is_same :: "pyval \<Rightarrow> pyval \<Rightarrow> bool" where
  "is_same (PyNaN i) (PyNaN j) = (i = j)"
| "is_same _ _ = False"

text \<open>Python's \<open>==\<close>: numbers compare by value across \<open>int\<close>, \<open>float\<close> and
  \<open>complex\<close>, a not-a-number is unequal to everything, lists compare element by
  element (the same object, or \<open>==\<close>), different kinds are unequal. It never raises.\<close>

fun py_eq :: "pyval \<Rightarrow> pyval \<Rightarrow> bool"
  and list_eq :: "pyval list \<Rightarrow> pyval list \<Rightarrow> bool" where
  "py_eq PyNone b = (b = PyNone)"
| "py_eq (PyStr s) b = (case b of PyStr t \<Rightarrow> s = t | _ \<Rightarrow> False)"
| "py_eq (PyList xs) b = (case b of PyList ys \<Rightarrow> list_eq xs ys | _ \<Rightarrow> False)"
| "py_eq (PyInt i) b = (case num_val b of Some y \<Rightarrow> (of_int i, 0) = y | None \<Rightarrow> False)"
| "py_eq (PyFloat x) b = (case num_val b of Some y \<Rightarrow> (x, 0) = y | None \<Rightarrow> False)"
| "py_eq (PyComplex re im) b = (case num_val b of Some y \<Rightarrow> (re, im) = y | None \<Rightarrow> False)"
| "py_eq (PyNaN i) b = False"
| "list_eq [] ys = (ys = [])"
| "list_eq (x # xs) ys =
     (case ys of [] \<Rightarrow> False | y # ys' \<Rightarrow> (is_same x y \<or> py_eq x y) \<and> list_eq xs ys')"

text \<open>What a dictionary lookup, a list comparison and \<open>in\<close> on a list take as equal:
  the same object, or \<open>==\<close>.\<close>

definition same_or_eq :: "pyval \<Rightarrow> pyval \<Rightarrow> bool" where
  "same_or_eq a b = (is_same a b \<or> py_eq a b)"

text \<open>A list has no hash: using it as a dictionary key raises \<open>TypeError\<close>.\<close>

fun hashable :: "pyval \<Rightarrow> bool" where
  "hashable (PyList _) = False"
| "hashable _ = True"

text \<open>
  \<open>self.data\<close> is a Python \<open>dict\<close>: entries in insertion order, one entry for each
  class of equal keys. Assigning to a key that is present keeps the stored key and its
  place and replaces the value.
\<close>

type_synonym store = "(pyval \<times> pyval) list"

fun dict_find :: "store \<Rightarrow> pyval \<Rightarrow> pyval option" where
  "dict_find [] k = None"
| "dict_find ((k', v') # d) k = (if same_or_eq k' k then Some v' else dict_find d k)"

fun dict_update :: "store \<Rightarrow> pyval \<Rightarrow> pyval \<Rightarrow> store" where
  "dict_update [] k v = [(k, v)]"
| "dict_update ((k', v') # d) k v =
     (if same_or_eq k' k then (k', v) # d else (k', v') # dict_update d k v)"

fun dict_remove :: "store \<Rightarrow> pyval \<Rightarrow> store" where
  "dict_remove [] k = []"
| "dict_remove ((k', v') # d) k =
     (if same_or_eq k' k then d else (k', v') # dict_remove d k)"

definition dict_getitem :: "store \<Rightarrow> pyval \<Rightarrow> exn + pyval" where
  "dict_getitem d k =
     (if \<not> hashable k then Inl TypeError
      else case dict_find d k of None \<Rightarrow> Inl KeyError | Some v \<Rightarrow> Inr v)"

definition dict_setitem :: "store \<Rightarrow> pyval \<Rightarrow> pyval \<Rightarrow> exn + store" where
  "dict_setitem d k v = (if \<not> hashable k then Inl TypeError else Inr (dict_update d k v))"

definition dict_delitem :: "store \<Rightarrow> pyval \<Rightarrow> exn + store" where
  "dict_delitem d k =
     (if \<not> hashable k then Inl TypeError
      else case dict_find d k of None \<Rightarrow> Inl KeyError | Some v \<Rightarrow> Inr (dict_remove d k))"

text \<open>What every \<open>dict\<close> satisfies: hashable keys, no two of them the same or equal.\<close>

fun wf_store :: "store \<Rightarrow> bool" where
  "wf_store [] = True"
| "wf_store ((k, v) # d) = (hashable k \<and> dict_find d k = None \<and> wf_store d)"

section \<open>Responses and the single-entry operations\<close>

record response =
  success :: bool
  message :: "string option"
  data :: "(pyval \<times> pyval) list"

definition Response :: "bool \<Rightarrow> string option \<Rightarrow> (pyval \<times> pyval) list \<Rightarrow> response" where
  "Response s m d = \<lparr>success = s, message = m, data = d\<rparr>"

definition send_error :: "string \<Rightarrow> response" where
  "send_error description = Response False (Some description) []"

text \<open>Each operation takes \<open>self.data\<close> and returns the response and \<open>self.data\<close>
  afterwards. The bare \<open>except:\<close> of the source catches every exception.\<close>

definition read :: "pyval \<Rightarrow> store \<Rightarrow> response \<times> store" where
  "read key d =
     (case dict_getitem d key of
        Inr v \<Rightarrow> (Response True None [(key, v)], d)
      | Inl e \<Rightarrow> (send_error ''Entry does not exist.'', d))"

definition add :: "pyval \<Rightarrow> pyval \<Rightarrow> store \<Rightarrow> response \<times> store" where
  "add key val d =
     (case dict_setitem d key val of
        Inl e \<Rightarrow> (send_error ''Entry could not be added.'', d)
      | Inr d' \<Rightarrow>
          (case dict_getitem d' key of
             Inr v \<Rightarrow> (Response True None [(key, v)], d')
           | Inl e \<Rightarrow> (send_error ''Entry could not be added.'', d')))"

definition delete :: "pyval \<Rightarrow> store \<Rightarrow> response \<times> store" where
  "delete key d =
     (case dict_delitem d key of
        Inr d' \<Rightarrow> (Response True None [], d')
      | Inl e \<Rightarrow> (send_error ''Entry could not be deleted.'', d))"

section \<open>The comparison operators\<close>

datatype cmpop = Lt | Gt | Le | Ge

definition cmp :: "cmpop \<Rightarrow> 'a::linorder \<Rightarrow> 'a \<Rightarrow> bool" where
  "cmp c x y = (case c of Lt \<Rightarrow> x < y | Gt \<Rightarrow> y < x | Le \<Rightarrow> x \<le> y | Ge \<Rightarrow> y \<le> x)"

text \<open>
  Python's \<open><\<close>, \<open>>\<close>, \<open><=\<close>, \<open>>=\<close>: \<open>int\<close> and \<open>float\<close> by value (every comparison
  with a not-a-number is false), strings by code points, lists by the first pair of
  unequal elements (or the lengths), and \<open>TypeError\<close> for every other pair of kinds.
\<close>

fun is_nan :: "pyval \<Rightarrow> bool" where
  "is_nan (PyNaN i) = True"
| "is_nan _ = False"

fun py_order :: "cmpop \<Rightarrow> pyval \<Rightarrow> pyval \<Rightarrow> exn + bool"
  and list_order :: "cmpop \<Rightarrow> pyval list \<Rightarrow> pyval list \<Rightarrow> exn + bool" where
  "py_order c PyNone b = Inl TypeError"
| "py_order c (PyComplex re im) b = Inl TypeError"
| "py_order c (PyStr s) b = (case b of PyStr t \<Rightarrow> Inr (cmp c s t) | _ \<Rightarrow> Inl TypeError)"
| "py_order c (PyList xs) b = (case b of PyList ys \<Rightarrow> list_order c xs ys | _ \<Rightarrow> Inl TypeError)"
| "py_order c (PyInt i) b =
     (case real_val b of
        Some y \<Rightarrow> Inr (cmp c (of_int i) y)
      | None \<Rightarrow> if is_nan b then Inr False else Inl TypeError)"
| "py_order c (PyFloat x) b =
     (case real_val b of
        Some y \<Rightarrow> Inr (cmp c x y)
      | None \<Rightarrow> if is_nan b then Inr False else Inl TypeError)"
| "py_order c (PyNaN i) b =
     (if real_val b \<noteq> None \<or> is_nan b then Inr False else Inl TypeError)"
| "list_order c [] ys = Inr (case ys of [] \<Rightarrow> c = Le \<or> c = Ge | _ \<Rightarrow> c = Lt \<or> c = Le)"
| "list_order c (x # xs) ys =
     (case ys of
        [] \<Rightarrow> Inr (c = Gt \<or> c = Ge)
      | y # ys' \<Rightarrow> if same_or_eq x y then list_order c xs ys' else py_order c x y)"

fun substring :: "string \<Rightarrow> string \<Rightarrow> bool" where
  "substring t [] = (t = [])"
| "substring t (c # s) = (prefix t (c # s) \<or> substring t s)"

fun member_eq :: "pyval list \<Rightarrow> pyval \<Rightarrow> bool" where
  "member_eq [] b = False"
| "member_eq (x # xs) b = (same_or_eq x b \<or> member_eq xs b)"

text \<open>\<open>operator.contains(a, b)\<close> is \<open>b in a\<close>.\<close>

fun operator_contains :: "pyval \<Rightarrow> pyval \<Rightarrow> exn + bool" where
  "operator_contains (PyStr s) b = (case b of PyStr t \<Rightarrow> Inr (substring t s) | _ \<Rightarrow> Inl TypeError)"
| "operator_contains (PyList xs) b = Inr (member_eq xs b)"
| "operator_contains _ b = Inl TypeError"

definition operator_gt :: "pyval \<Rightarrow> pyval \<Rightarrow> exn + bool" where
  "operator_gt a b = py_order Gt a b"

definition operator_lt :: "pyval \<Rightarrow> pyval \<Rightarrow> exn + bool" where
  "operator_lt a b = py_order Lt a b"

definition operator_le :: "pyval \<Rightarrow> pyval \<Rightarrow> exn + bool" where
  "operator_le a b = py_order Le a b"

definition operator_ge :: "pyval \<Rightarrow> pyval \<Rightarrow> exn + bool" where
  "operator_ge a b = py_order Ge a b"

definition operator_eq :: "pyval \<Rightarrow> pyval \<Rightarrow> exn + bool" where
  "operator_eq a b = Inr (py_eq a b)"

type_synonym opfn = "pyval \<Rightarrow> pyval \<Rightarrow> exn + bool"

definition operators :: "string \<rightharpoonup> opfn" where
  "operators =
     [''>'' \<mapsto> operator_gt, ''<'' \<mapsto> operator_lt, ''='' \<mapsto> operator_eq,
      ''<='' \<mapsto> operator_le, ''>='' \<mapsto> operator_ge, ''contains'' \<mapsto> operator_contains]"

section \<open>The query parser\<close>

text \<open>
  The grammar is built from \<open>pyparsing\<close> elements. Their behaviour, as far as the
  grammar uses it: every element first skips the white characters (blank, newline, tab,
  carriage return); \<open>Keyword\<close> matches its text where the character before and the
  character after are not identifier characters; \<open>Word(printables)\<close> takes the longest
  non-empty run of printable characters; \<open>+\<close> is sequence and \<open>|\<close> takes the first
  alternative that matches. \<open>parseString\<close> matches at the start of the string and does
  not require the match to reach its end.
\<close>

definition white_chars :: "char list" where
  "white_chars = [CHR '' '', CHR 0x0A, CHR 0x09, CHR 0x0D]"

definition identChars :: "char list" where
  "identChars = ''abcdefghijklmnopqrstuvwxyzABCDEFGHIJKLMNOPQRSTUVWXYZ0123456789_$''"

definition printable :: "char \<Rightarrow> bool" where
  "printable c = (33 \<le> (of_char c :: nat) \<and> (of_char c :: nat) \<le> 126)"

type_synonym 'a parser = "string \<Rightarrow> nat \<Rightarrow> exn + (nat \<times> 'a)"

definition preParse :: "string \<Rightarrow> nat \<Rightarrow> nat" where
  "preParse instring loc = loc + length (takeWhile (\<lambda>c. c \<in> set white_chars) (drop loc instring))"

definition Keyword :: "string \<Rightarrow> string parser" where
  "Keyword m instring loc0 =
     (let loc = preParse instring loc0 in
      if take (length m) (drop loc instring) = m
         \<and> (length instring \<le> loc + length m \<or> instring ! (loc + length m) \<notin> set identChars)
         \<and> (loc = 0 \<or> instring ! (loc - 1) \<notin> set identChars)
      then Inr (loc + length m, m)
      else Inl ParseException)"

definition Literal :: "string \<Rightarrow> string parser" where
  "Literal m instring loc0 =
     (let loc = preParse instring loc0 in
      if take (length m) (drop loc instring) = m then Inr (loc + length m, m)
      else Inl ParseException)"

definition Word_printables :: "string parser" where
  "Word_printables instring loc0 =
     (let loc = preParse instring loc0;
          tok = takeWhile printable (drop loc instring) in
      if tok = [] then Inl ParseException else Inr (loc + length tok, tok))"

definition MatchFirst :: "'a parser \<Rightarrow> 'a parser \<Rightarrow> 'a parser" where
  "MatchFirst p q instring loc =
     (case p instring loc of Inr r \<Rightarrow> Inr r | Inl e \<Rightarrow> q instring loc)"

definition ACTION :: "string parser" where
  "ACTION = MatchFirst (Keyword ''read'') (Keyword ''delete'')"

definition ELEMENT :: "string parser" where
  "ELEMENT = MatchFirst (Keyword ''key'') (Keyword ''value'')"

definition OPERATOR :: "string parser" where
  "OPERATOR =
     MatchFirst (Keyword ''<='') (MatchFirst (Keyword ''>='') (MatchFirst (Keyword ''<'')
       (MatchFirst (Keyword ''>'') (MatchFirst (Keyword ''='') (Keyword ''contains'')))))"

text \<open>\<open>VALUE\<close> yields the result names it sets: \<open>value_type\<close> (when the first
  alternative matched) and \<open>value\<close>.\<close>

definition typed_VALUE :: "(string option \<times> string) parser" where
  "typed_VALUE instring loc =
     (case Word_printables instring loc of Inl e \<Rightarrow> Inl e | Inr (loc1, t) \<Rightarrow>
      case Literal ''('' instring loc1 of Inl e \<Rightarrow> Inl e | Inr (loc2, u) \<Rightarrow>
      case Word_printables instring loc2 of Inl e \<Rightarrow> Inl e | Inr (loc3, v) \<Rightarrow>
      case Literal '')'' instring loc3 of Inl e \<Rightarrow> Inl e | Inr (loc4, w) \<Rightarrow>
        Inr (loc4, (Some t, v)))"

definition plain_VALUE :: "(string option \<times> string) parser" where
  "plain_VALUE instring loc =
     (case Word_printables instring loc of Inl e \<Rightarrow> Inl e | Inr (loc1, v) \<Rightarrow>
        Inr (loc1, (None, v)))"

definition VALUE :: "(string option \<times> string) parser" where
  "VALUE = MatchFirst typed_VALUE plain_VALUE"

text \<open>The builtin \<open>int\<close> on a string: an optional sign, then decimal digits, single
  underscores allowed between digits.\<close>

definition is_digit :: "char \<Rightarrow> bool" where
  "is_digit c = (48 \<le> (of_char c :: nat) \<and> (of_char c :: nat) \<le> 57)"

fun digits_ok :: "bool \<Rightarrow> string \<Rightarrow> bool" where
  "digits_ok prev [] = prev"
| "digits_ok prev (c # cs) =
     (if is_digit c then digits_ok True cs
      else if c = CHR ''_'' \<and> prev then digits_ok False cs
      else False)"

definition dec_val :: "string \<Rightarrow> int" where
  "dec_val cs = foldl (\<lambda>a c. 10 * a + (of_char c - 48)) 0 (filter is_digit cs)"

definition py_int :: "string \<Rightarrow> exn + pyval" where
  "py_int s =
     (case s of
        [] \<Rightarrow> Inl ValueError
      | c # r \<Rightarrow>
          if c = CHR ''-'' then (if digits_ok False r then Inr (PyInt (- dec_val r)) else Inl ValueError)
          else if c = CHR ''+'' then (if digits_ok False r then Inr (PyInt (dec_val r)) else Inl ValueError)
          else (if digits_ok False s then Inr (PyInt (dec_val s)) else Inl ValueError))"

definition py_str :: "string \<Rightarrow> exn + pyval" where
  "py_str s = Inr (PyStr s)"

text \<open>The builtins \<open>float\<close> and \<open>complex\<close> on a string are parameters of the model:
  what they return, or raise, is left open.\<close>

record builtins =
  py_float :: "string \<Rightarrow> exn + pyval"
  py_complex :: "string \<Rightarrow> exn + pyval"

definition types :: "builtins \<Rightarrow> string \<rightharpoonup> (string \<Rightarrow> exn + pyval)" where
  "types B =
     [''int'' \<mapsto> py_int, ''float'' \<mapsto> py_float B, ''complex'' \<mapsto> py_complex B,
      ''str'' \<mapsto> py_str]"

definition parse_value_to_type :: "builtins \<Rightarrow> string \<Rightarrow> string \<Rightarrow> exn + pyval" where
  "parse_value_to_type B v value_type =
     (case types B value_type of None \<Rightarrow> Inl KeyError | Some f \<Rightarrow> f v)"

record parsed =
  action :: string
  element :: string
  operator :: string
  value_type :: "string option"
  qvalue :: pyval

definition parse_query_string :: "builtins \<Rightarrow> string \<Rightarrow> exn + parsed" where
  "parse_query_string B instring =
     (case ACTION instring 0 of Inl e \<Rightarrow> Inl e | Inr (loc1, a) \<Rightarrow>
      case ELEMENT instring loc1 of Inl e \<Rightarrow> Inl e | Inr (loc2, el) \<Rightarrow>
      case OPERATOR instring loc2 of Inl e \<Rightarrow> Inl e | Inr (loc3, opr) \<Rightarrow>
      case VALUE instring loc3 of Inl e \<Rightarrow> Inl e | Inr (loc4, (vt, v)) \<Rightarrow>
        (case vt of
           None \<Rightarrow>
             Inr \<lparr>action = a, element = el, operator = opr, value_type = None,
                  qvalue = PyStr v\<rparr>
         | Some t \<Rightarrow>
             (case parse_value_to_type B v t of
                Inl e \<Rightarrow> Inl e
              | Inr tv \<Rightarrow>
                  Inr \<lparr>action = a, element = el, operator = opr, value_type = Some t,
                       qvalue = tv\<rparr>)))"

section \<open>Query execution\<close>

text \<open>\<open>query_action\<close> is \<open>None\<close> for \<open>read\<close> and the method \<open>_delete_from_query\<close> for
  \<open>delete\<close>. Calling \<open>None\<close> raises \<open>TypeError\<close>.\<close>

type_synonym action_fn = "(pyval \<Rightarrow> store \<Rightarrow> exn + store) option"

definition delete_from_query :: "pyval \<Rightarrow> store \<Rightarrow> exn + store" where
  "delete_from_query key d = dict_delitem d key"

definition call_action :: "action_fn \<Rightarrow> pyval \<Rightarrow> store \<Rightarrow> exn + store" where
  "call_action qa key d = (case qa of None \<Rightarrow> Inl TypeError | Some f \<Rightarrow> f key d)"

definition query_actions :: "string \<rightharpoonup> action_fn" where
  "query_actions = [''read'' \<mapsto> None, ''delete'' \<mapsto> Some delete_from_query]"

text \<open>
  The body of the two scanning loops: \<open>sel\<close> picks what is compared (the value of the
  entry in \<open>_execute_query_by_value\<close>, its key in \<open>_execute_query_by_key\<close>). The
  \<open>try\<close> covers the lookup of the operator, the comparison, the append and the call of
  \<open>query_action\<close>; whatever is raised is dropped, and what was done before stays done.
\<close>

definition loop_body ::
  "(pyval \<times> pyval \<Rightarrow> pyval) \<Rightarrow> action_fn \<Rightarrow> parsed \<Rightarrow> (string \<rightharpoonup> opfn) \<Rightarrow> pyval \<times> pyval \<Rightarrow>
   (pyval \<times> pyval) list \<times> store \<Rightarrow> (pyval \<times> pyval) list \<times> store" where
  "loop_body sel qa q ops kv st =
     (case ops (operator q) of
        None \<Rightarrow> st
      | Some f \<Rightarrow>
          (case f (sel kv) (qvalue q) of
             Inl e \<Rightarrow> st
           | Inr b \<Rightarrow>
               if b then
                 (case call_action qa (fst kv) (snd st) of
                    Inl e \<Rightarrow> (fst st @ [kv], snd st)
                  | Inr d' \<Rightarrow> (fst st @ [kv], d'))
               else st))"

fun scan_loop ::
  "(pyval \<times> pyval \<Rightarrow> pyval) \<Rightarrow> action_fn \<Rightarrow> parsed \<Rightarrow> (string \<rightharpoonup> opfn) \<Rightarrow> (pyval \<times> pyval) list \<Rightarrow>
   (pyval \<times> pyval) list \<times> store \<Rightarrow> (pyval \<times> pyval) list \<times> store" where
  "scan_loop sel qa q ops [] st = st"
| "scan_loop sel qa q ops (kv # items) st =
     scan_loop sel qa q ops items (loop_body sel qa q ops kv st)"

definition execute_query_by_value ::
  "action_fn \<Rightarrow> parsed \<Rightarrow> (string \<rightharpoonup> opfn) \<Rightarrow> store \<Rightarrow> (pyval \<times> pyval) list \<times> store" where
  "execute_query_by_value qa q ops d = scan_loop snd qa q ops d ([], d)"

definition execute_query_by_key ::
  "action_fn \<Rightarrow> parsed \<Rightarrow> (string \<rightharpoonup> opfn) \<Rightarrow> store \<Rightarrow> (pyval \<times> pyval) list \<times> store" where
  "execute_query_by_key qa q ops d =
     (if operator q = ''='' then
        (case dict_getitem d (qvalue q) of
           Inl e \<Rightarrow> ([], d)
         | Inr v \<Rightarrow>
             (case call_action qa (qvalue q) d of
                Inl e \<Rightarrow> ([(qvalue q, v)], d)
              | Inr d' \<Rightarrow> ([(qvalue q, v)], d')))
      else scan_loop fst qa q ops d ([], d))"

definition query_elements ::
  "string \<rightharpoonup> (action_fn \<Rightarrow> parsed \<Rightarrow> (string \<rightharpoonup> opfn) \<Rightarrow> store \<Rightarrow> (pyval \<times> pyval) list \<times> store)" where
  "query_elements = [''key'' \<mapsto> execute_query_by_key, ''value'' \<mapsto> execute_query_by_value]"

text \<open>\<open>_query\<close> on a query string; \<open>query_request\<close> is \<open>_query\<close> on whatever the
  request carries: \<open>parseString\<close> raises on anything that is not a string.\<close>

definition query :: "builtins \<Rightarrow> string \<Rightarrow> store \<Rightarrow> response \<times> store" where
  "query B s d =
     (case parse_query_string B s of
        Inl e \<Rightarrow> (send_error ''Invalid query syntax.'', d)
      | Inr q \<Rightarrow>
          (case query_actions (action q) of
             None \<Rightarrow> (send_error ''Invalid query syntax.'', d)
           | Some qa \<Rightarrow>
               (case query_elements (element q) of
                  None \<Rightarrow> (send_error ''Invalid query syntax.'', d)
                | Some ex \<Rightarrow>
                    (case ex qa q operators d of
                       (matches, d') \<Rightarrow> (Response True None matches, d')))))"

definition query_request :: "builtins \<Rightarrow> pyval \<Rightarrow> store \<Rightarrow> response \<times> store" where
  "query_request B qv d =
     (case qv of PyStr s \<Rightarrow> query B s d | _ \<Rightarrow> (send_error ''Invalid query syntax.'', d))"

section \<open>The dispatcher\<close>

text \<open>Modelled from the spec: the class \<open>Request\<close> (module \<open>request\<close>), with the
  fields the client's constructor calls and the server's reads name.\<close>

record request =
  request_type :: int
  req_key :: pyval
  req_value :: pyval
  req_query :: pyval

type_synonym handler = "store \<Rightarrow> response \<times> store"

definition request_types :: "builtins \<Rightarrow> request \<Rightarrow> int \<rightharpoonup> handler" where
  "request_types B r =
     [0 \<mapsto> read (req_key r),
      1 \<mapsto> add (req_key r) (req_value r),
      2 \<mapsto> delete (req_key r),
      3 \<mapsto> query_request B (req_query r),
      4 \<mapsto> (\<lambda>d. (send_error ''Request type does not exist.'', d))]"

text \<open>What \<open>request_types.get(request.request_type, 4)\<close> returns is one of the
  functions of the table, or the default: the integer \<open>4\<close>. Calling an integer raises
  \<open>TypeError\<close>.\<close>

datatype pyobj = Function handler | IntObj int

definition dict_get :: "(int \<rightharpoonup> handler) \<Rightarrow> int \<Rightarrow> pyobj \<Rightarrow> pyobj" where
  "dict_get m k dflt = (case m k of Some f \<Rightarrow> Function f | None \<Rightarrow> dflt)"

fun call :: "pyobj \<Rightarrow> store \<Rightarrow> exn + response \<times> store" where
  "call (Function f) d = Inr (f d)"
| "call (IntObj n) d = Inl TypeError"

text \<open>One turn of the inner loop of \<open>_listen\<close>, from the unpickled request to the
  response that is sent, or the exception that leaves the loop.\<close>

definition listen_step :: "builtins \<Rightarrow> request \<Rightarrow> store \<Rightarrow> exn + response \<times> store" where
  "listen_step B r d = call (dict_get (request_types B r) (request_type r) (IntObj 4)) d"

section \<open>Loading the snapshot\<close>

text \<open>
  \<open>_init_db\<close> opens and reads the file, then unpickles what it read. \<open>opened\<close> is
  the outcome of \<open>open\<close> and \<open>read\<close> (the bytes, or the exception), \<open>loads\<close> is
  \<open>pickle.loads\<close>. The handler is \<open>except IOError\<close>: it catches \<open>IOError\<close> and
  nothing else.
\<close>

definition init_db :: "exn + 'b \<Rightarrow> ('b \<Rightarrow> exn + store) \<Rightarrow> exn + store" where
  "init_db opened loads =
     (case (case opened of Inl e \<Rightarrow> Inl e | Inr bytes \<Rightarrow> loads bytes) of
        Inr d \<Rightarrow> Inr d
      | Inl e \<Rightarrow> if e = IOError then Inr [] else Inl e)"

section \<open>Notions used in the statements\<close>

text \<open>An entry matches a scan when the operator is in the table and its call on the
  entry's operand and the query value returns \<open>True\<close>.\<close>

definition matches_entry ::
  "(pyval \<times> pyval \<Rightarrow> pyval) \<Rightarrow> parsed \<Rightarrow> (string \<rightharpoonup> opfn) \<Rightarrow> pyval \<times> pyval \<Rightarrow> bool" where
  "matches_entry sel q ops kv =
     (case ops (operator q) of None \<Rightarrow> False | Some f \<Rightarrow> f (sel kv) (qvalue q) = Inr True)"

text \<open>
  The kinds of values, and when the kind of an entry's operand is incompatible with the
  kind of the query value: ordering needs two real numbers, two strings or two lists;
  \<open>contains\<close> needs a string in a string, or a list as the container; for \<open>=\<close>, two
  different kinds are incompatible unless both are numbers.
\<close>

datatype kind = NoneKind | IntKind | FloatKind | ComplexKind | StrKind | ListKind

fun kind_of :: "pyval \<Rightarrow> kind" where
  "kind_of PyNone = NoneKind"
| "kind_of (PyInt i) = IntKind"
| "kind_of (PyFloat x) = FloatKind"
| "kind_of (PyNaN i) = FloatKind"
| "kind_of (PyComplex re im) = ComplexKind"
| "kind_of (PyStr s) = StrKind"
| "kind_of (PyList xs) = ListKind"

definition real_kind :: "kind \<Rightarrow> bool" where
  "real_kind k = (k = IntKind \<or> k = FloatKind)"

definition number_kind :: "kind \<Rightarrow> bool" where
  "number_kind k = (k = IntKind \<or> k = FloatKind \<or> k = ComplexKind)"

definition incompatible :: "string \<Rightarrow> kind \<Rightarrow> kind \<Rightarrow> bool" where
  "incompatible opr ka kb =
     (if opr = ''contains'' then (ka \<noteq> StrKind \<and> ka \<noteq> ListKind) \<or> (ka = StrKind \<and> kb \<noteq> StrKind)
      else if opr = ''='' then ka \<noteq> kb \<and> \<not> (number_kind ka \<and> number_kind kb)
      else \<not> ((real_kind ka \<and> real_kind kb) \<or> (ka = StrKind \<and> kb = StrKind)
               \<or> (ka = ListKind \<and> kb = ListKind)))"

definition operand :: "parsed \<Rightarrow> pyval \<times> pyval \<Rightarrow> pyval" where
  "operand q = (if element q = ''key'' then fst else snd)"

text \<open>The tokens of a query string as the specification counts them: the maximal
  runs of characters that are not white.\<close>

abbreviation white :: "char \<Rightarrow> bool" where
  "white c \<equiv> c \<in> set white_chars"

function spec_tokens :: "string \<Rightarrow> string list" where
  "spec_tokens s =
     (let r = dropWhile white s in
      if r = [] then []
      else takeWhile (\<lambda>c. \<not> white c) r # spec_tokens (dropWhile (\<lambda>c. \<not> white c) r))"
  by pat_completeness auto
termination
proof (relation "measure length")
  show "wf (measure length)" by simp
next
  fix s r :: string
  assume r: "r = dropWhile white s" and ne: "r \<noteq> []"
  from ne obtain c r' where cr: "r = c # r'" by (cases r) auto
  from r ne have "\<not> white (hd r)" by (metis hd_dropWhile)
  with cr have "dropWhile (\<lambda>c. \<not> white c) r = dropWhile (\<lambda>c. \<not> white c) r'" by simp
  then have "length (dropWhile (\<lambda>c. \<not> white c) r) \<le> length r'"
    by (simp add: length_dropWhile_le)
  also have "\<dots> < length r" using cr by simp
  also have "\<dots> \<le> length s" using r by (simp add: length_dropWhile_le)
  finally show "(dropWhile (\<lambda>c. \<not> white c) r, s) \<in> measure length" by simp
qed

declare spec_tokens.simps [simp del]

text \<open>
  The first three tokens of the strings the parser takes up to the value. A keyword
  matches at the start of a token when it is a prefix of the token and the character
  after it, if the token has one, is not an identifier character; the operator is the
  first keyword of the grammar's alternatives that matches the third token. The value
  starts with a printable character: right after the operator in the third token, or
  at the start of a fourth token.
\<close>

definition operator_keywords :: "string list" where
  "operator_keywords = [''<='', ''>='', ''<'', ''>'', ''='', ''contains'']"

definition kw_match :: "string \<Rightarrow> string \<Rightarrow> bool" where
  "kw_match m t = (prefix m t \<and> (t = m \<or> t ! length m \<notin> set identChars))"

definition chosen_operator :: "string \<Rightarrow> string option" where
  "chosen_operator t = find (\<lambda>m. kw_match m t) operator_keywords"

definition value_follows :: "string \<Rightarrow> string \<Rightarrow> string list \<Rightarrow> bool" where
  "value_follows m t3 rest =
     (if t3 = m then (case rest of [] \<Rightarrow> False | v # vs \<Rightarrow> printable (hd v))
      else printable (t3 ! length m))"

definition well_begun :: "string list \<Rightarrow> bool" where
  "well_begun ts =
     (case ts of
        a # e # t3 # rest \<Rightarrow>
          (a = ''read'' \<or> a = ''delete'') \<and> (e = ''key'' \<or> e = ''value'')
          \<and> (case chosen_operator t3 of None \<Rightarrow> False | Some m \<Rightarrow> value_follows m t3 rest)
      | _ \<Rightarrow> False)"

text \<open>
  What follows the operator, as tokens: the rest of the third token when the operator
  is a proper prefix of it, then the tokens after it. \<open>Word(printables)\<close> takes the
  printable characters at the start of the next token and \<open>Literal\<close> a prefix of the
  next token; what they leave of a token is the next token for what comes after. The
  value has the typed form when a word, \<open>(\<close>, a word and \<open>)\<close> are found in this
  order.
\<close>

definition word_token :: "string list \<Rightarrow> (string \<times> string list) option" where
  "word_token ts =
     (case ts of
        [] \<Rightarrow> None
      | w # ws \<Rightarrow>
          (let t = takeWhile printable w in
           if t = [] then None
           else Some (t, if t = w then ws else drop (length t) w # ws)))"

definition literal_token :: "string \<Rightarrow> string list \<Rightarrow> string list option" where
  "literal_token m ts =
     (case ts of
        [] \<Rightarrow> None
      | w # ws \<Rightarrow>
          if prefix m w then Some (if w = m then ws else drop (length m) w # ws)
          else None)"

definition typed_value :: "string list \<Rightarrow> (string \<times> string) option" where
  "typed_value ts =
     (case word_token ts of None \<Rightarrow> None | Some (T, ts1) \<Rightarrow>
      case literal_token ''('' ts1 of None \<Rightarrow> None | Some ts2 \<Rightarrow>
      case word_token ts2 of None \<Rightarrow> None | Some (L, ts3) \<Rightarrow>
      case literal_token '')'' ts3 of None \<Rightarrow> None | Some ts4 \<Rightarrow> Some (T, L))"

definition value_tokens :: "string list \<Rightarrow> string list" where
  "value_tokens ts =
     (case ts of
        a # e # t3 # rest \<Rightarrow>
          (case chosen_operator t3 of
             None \<Rightarrow> []
           | Some m \<Rightarrow> if t3 = m then rest else drop (length m) t3 # rest)
      | _ \<Rightarrow> [])"

text \<open>The examples below need a value for the two builtins that the model leaves
  open; none of their queries calls \<open>float\<close> or \<open>complex\<close>.\<close>

abbreviation no_float :: builtins where
  "no_float \<equiv> \<lparr>py_float = (\<lambda>s. Inl ValueError), py_complex = (\<lambda>s. Inl ValueError)\<rparr>"

abbreviation example_store :: store where
  "example_store \<equiv>
     [(PyInt 1, PyInt 123), (PyStr ''1a2b3c'', PyStr ''John''),
      (PyInt 10, PyStr ''Radu-Mihai''), (PyInt 15, PyStr ''Onescu'')]"

section \<open>Facts about the dictionary\<close>

lemma py_eq_num: "num_val a = Some x \<Longrightarrow> py_eq a b = (num_val b = Some x)"
  by (cases a) (auto split: option.splits)

lemma is_same_sym: "is_same a b = is_same b a"
  by (cases a; cases b) auto

lemma list_eq_refl_aux: "(\<And>x. x \<in> set xs \<Longrightarrow> same_or_eq x x) \<Longrightarrow> list_eq xs xs"
  by (induction xs) (auto simp: same_or_eq_def)

lemma same_or_eq_refl: "same_or_eq a a"
  by (induction a) (simp_all add: list_eq_refl_aux same_or_eq_def)

lemma py_eq_sym_aux:
  "py_eq a b \<Longrightarrow> py_eq b a" "list_eq xs ys \<Longrightarrow> list_eq ys xs"
  by (induction a b and xs ys rule: py_eq_list_eq.induct)
     (auto split: pyval.splits option.splits list.splits simp: py_eq_num is_same_sym)

lemma same_or_eq_sym: "same_or_eq a b = same_or_eq b a"
  using py_eq_sym_aux(1) is_same_sym unfolding same_or_eq_def by blast

lemma same_or_eq_hashable: "same_or_eq a b \<Longrightarrow> hashable a \<Longrightarrow> hashable b"
  by (cases a; cases b) (auto simp: same_or_eq_def)

lemma dict_find_update_same: "dict_find (dict_update d k v) k = Some v"
  by (induction d) (auto simp: same_or_eq_refl)

lemma dict_find_None_iff:
  "dict_find d k = None \<longleftrightarrow> (\<forall>kv \<in> set d. \<not> same_or_eq (fst kv) k)"
  by (induction d) (auto split: if_splits)

lemma dict_find_Some_hashable:
  "wf_store d \<Longrightarrow> dict_find d k = Some v \<Longrightarrow> hashable k"
proof (induction d)
  case Nil
  then show ?case by simp
next
  case (Cons kv d)
  obtain k' v' where kv: "kv = (k', v')" by (cases kv)
  show ?case
  proof (cases "same_or_eq k' k")
    case True
    with Cons.prems kv show ?thesis by (auto dest: same_or_eq_hashable)
  next
    case False
    with Cons kv show ?thesis by simp
  qed
qed

lemma wf_store_Cons:
  "wf_store (kv # d) = (hashable (fst kv) \<and> dict_find d (fst kv) = None \<and> wf_store d)"
  by (cases kv) simp

lemma dict_find_Cons:
  "dict_find (kv # d) k = (if same_or_eq (fst kv) k then Some (snd kv) else dict_find d k)"
  by (cases kv) simp

lemma dict_find_append:
  "dict_find (xs @ ys) k = (case dict_find xs k of None \<Rightarrow> dict_find ys k | Some v \<Rightarrow> Some v)"
  by (induction xs) auto

lemma dict_find_mid:
  "wf_store (kept @ (k, v) # items) \<Longrightarrow> dict_find (kept @ (k, v) # items) k = Some v"
  by (induction kept) (auto simp: same_or_eq_refl dict_find_append same_or_eq_sym split: option.splits)

lemma dict_remove_mid:
  "wf_store (kept @ (k, v) # items) \<Longrightarrow> dict_remove (kept @ (k, v) # items) k = kept @ items"
  by (induction kept) (auto simp: same_or_eq_refl dict_find_append same_or_eq_sym split: option.splits)

lemma wf_store_mid_hashable:
  "wf_store (kept @ (k, v) # items) \<Longrightarrow> hashable k"
  by (induction kept) auto

lemma wf_store_drop_mid:
  "wf_store (kept @ kv # items) \<Longrightarrow> wf_store (kept @ items)"
  by (induction kept)
     (auto simp: wf_store_Cons dict_find_Cons dict_find_append split: option.splits if_splits)

lemma dict_find_filter_None: "dict_find d k = None \<Longrightarrow> dict_find (filter P d) k = None"
  by (induction d) (auto split: if_splits)

lemma wf_store_filter: "wf_store d \<Longrightarrow> wf_store (filter P d)"
  by (induction d) (auto simp: dict_find_filter_None)

lemma is_same_py: "is_same a b \<Longrightarrow> is_nan a \<and> a = b"
  by (cases a; cases b) auto

lemma py_eq_not_nan: "py_eq a b \<Longrightarrow> \<not> is_nan a \<and> \<not> is_nan b"
  by (cases a; cases b) (auto split: option.splits)

lemma same_or_eq_trans_aux:
  "py_eq a b \<Longrightarrow> py_eq b c \<Longrightarrow> py_eq a c"
  "list_eq xs ys \<Longrightarrow> list_eq ys zs \<Longrightarrow> list_eq xs zs"
   apply (induction a b and xs ys arbitrary: c and zs rule: py_eq_list_eq.induct)
  apply (auto split: pyval.splits option.splits list.splits simp: py_eq_num dest: is_same_py py_eq_not_nan)
  done

lemma same_or_eq_trans: "same_or_eq a b \<Longrightarrow> same_or_eq b c \<Longrightarrow> same_or_eq a c"
  unfolding same_or_eq_def
  by (metis is_same_py same_or_eq_trans_aux(1))

lemma dict_find_update_eq:
  assumes "same_or_eq k k'"
  shows "dict_find (dict_update d k v) k' = Some v"
proof (induction d)
  case Nil
  with assms show ?case by simp
next
  case (Cons kv d)
  obtain k0 v0 where kv: "kv = (k0, v0)" by (cases kv)
  have "same_or_eq k0 k \<longleftrightarrow> same_or_eq k0 k'"
    using assms same_or_eq_trans same_or_eq_sym by blast
  with Cons kv show ?case by simp
qed

section \<open>The scanning loop\<close>

text \<open>With \<open>query_action = None\<close> the call after the append raises, the \<open>except\<close>
  drops it, and the loop collects the matching entries without touching the store.\<close>

lemma loop_body_read:
  "loop_body sel None q ops kv (ms, d) = (if matches_entry sel q ops kv then ms @ [kv] else ms, d)"
  by (auto simp: loop_body_def matches_entry_def call_action_def split: option.splits sum.splits)

lemma scan_loop_read:
  "scan_loop sel None q ops items (ms, d) = (ms @ filter (matches_entry sel q ops) items, d)"
  by (induction items arbitrary: ms) (simp_all add: loop_body_read)

text \<open>With \<open>_delete_from_query\<close> the loop runs over the copy while the live store
  shrinks: \<open>kept\<close> are the entries passed and not matched, \<open>items\<close> those still to
  come.\<close>

lemma loop_body_delete:
  assumes "wf_store (kept @ kv # items)"
  shows "loop_body sel (Some delete_from_query) q ops kv (ms, kept @ kv # items)
       = (if matches_entry sel q ops kv then (ms @ [kv], kept @ items)
          else (ms, kept @ kv # items))"
proof -
  obtain k v where kv: "kv = (k, v)" by (cases kv)
  from assms kv have "dict_delitem (kept @ kv # items) k = Inr (kept @ items)"
    by (simp add: dict_delitem_def dict_find_mid dict_remove_mid wf_store_mid_hashable)
  then show ?thesis
    by (auto simp: loop_body_def matches_entry_def call_action_def delete_from_query_def kv
             split: option.splits sum.splits)
qed

lemma scan_loop_delete:
  "wf_store (kept @ items) \<Longrightarrow>
   scan_loop sel (Some delete_from_query) q ops items (ms, kept @ items)
   = (ms @ filter (matches_entry sel q ops) items,
      kept @ filter (\<lambda>kv. \<not> matches_entry sel q ops kv) items)"
proof (induction items arbitrary: kept ms)
  case Nil
  then show ?case by simp
next
  case (Cons kv items)
  show ?case
  proof (cases "matches_entry sel q ops kv")
    case True
    from Cons.prems have "wf_store (kept @ items)" by (rule wf_store_drop_mid)
    from Cons.IH [OF this] True Cons.prems show ?thesis
      by (simp add: loop_body_delete)
  next
    case False
    from Cons.prems have "wf_store ((kept @ [kv]) @ items)" by simp
    from Cons.IH [OF this] False Cons.prems show ?thesis
      by (simp add: loop_body_delete)
  qed
qed

section \<open>What the parser returns, and the query as a filter\<close>

lemma Keyword_result: "Keyword m s loc = Inr (loc', t) \<Longrightarrow> t = m"
  by (auto simp: Keyword_def Let_def split: if_splits)

lemma ACTION_result: "ACTION s loc = Inr (loc', t) \<Longrightarrow> t = ''read'' \<or> t = ''delete''"
  by (auto simp: ACTION_def MatchFirst_def split: sum.splits dest: Keyword_result)

lemma ELEMENT_result: "ELEMENT s loc = Inr (loc', t) \<Longrightarrow> t = ''key'' \<or> t = ''value''"
  by (auto simp: ELEMENT_def MatchFirst_def split: sum.splits dest: Keyword_result)

lemma MatchFirstE:
  assumes "MatchFirst p q s loc = Inr r"
  obtains "p s loc = Inr r" | "q s loc = Inr r"
  using assms by (auto simp: MatchFirst_def split: sum.splits)

lemma OPERATOR_result:
  "OPERATOR s loc = Inr (loc', t) \<Longrightarrow>
   t = ''<='' \<or> t = ''>='' \<or> t = ''<'' \<or> t = ''>'' \<or> t = ''='' \<or> t = ''contains''"
  unfolding OPERATOR_def
  by (elim MatchFirstE; drule Keyword_result; simp)

lemma parse_query_string_Inr:
  assumes "parse_query_string B s = Inr q"
  obtains l1 l2 l3 l4 vt v where
    "ACTION s 0 = Inr (l1, action q)" "ELEMENT s l1 = Inr (l2, element q)"
    "OPERATOR s l2 = Inr (l3, operator q)" "VALUE s l3 = Inr (l4, (vt, v))"
    "value_type q = vt"
    "case vt of None \<Rightarrow> qvalue q = PyStr v | Some t \<Rightarrow> parse_value_to_type B v t = Inr (qvalue q)"
proof -
  obtain l1 a where a: "ACTION s 0 = Inr (l1, a)"
    using assms by (cases "ACTION s 0") (auto simp: parse_query_string_def)
  obtain l2 el where e: "ELEMENT s l1 = Inr (l2, el)"
    using assms a by (cases "ELEMENT s l1") (auto simp: parse_query_string_def)
  obtain l3 opr where o: "OPERATOR s l2 = Inr (l3, opr)"
    using assms a e by (cases "OPERATOR s l2") (auto simp: parse_query_string_def)
  obtain l4 vt v where v: "VALUE s l3 = Inr (l4, (vt, v))"
    using assms a e o by (cases "VALUE s l3") (auto simp: parse_query_string_def)
  have q: "(case vt of
           None \<Rightarrow>
             Inr \<lparr>action = a, element = el, operator = opr, value_type = None,
                  qvalue = PyStr v\<rparr>
         | Some t \<Rightarrow>
             (case parse_value_to_type B v t of
                Inl e \<Rightarrow> Inl e
              | Inr tv \<Rightarrow>
                  Inr \<lparr>action = a, element = el, operator = opr, value_type = Some t,
                       qvalue = tv\<rparr>)) = Inr q"
    using assms a e o v by (simp add: parse_query_string_def)
  show ?thesis
  proof (cases vt)
    case None
    with q have "q = \<lparr>action = a, element = el, operator = opr, value_type = None, qvalue = PyStr v\<rparr>"
      by simp
    with a e o v None that [of l1 l2 l3 l4 vt v] show ?thesis by simp
  next
    case (Some t)
    with q obtain tv where tv: "parse_value_to_type B v t = Inr tv"
      and "q = \<lparr>action = a, element = el, operator = opr, value_type = Some t, qvalue = tv\<rparr>"
      by (cases "parse_value_to_type B v t") auto
    with a e o v Some that [of l1 l2 l3 l4 vt v] show ?thesis by simp
  qed
qed

lemma parse_fields:
  assumes "parse_query_string B s = Inr q"
  shows "(action q = ''read'' \<or> action q = ''delete'')
       \<and> (element q = ''key'' \<or> element q = ''value'')
       \<and> (operator q = ''<='' \<or> operator q = ''>='' \<or> operator q = ''<'' \<or> operator q = ''>''
            \<or> operator q = ''='' \<or> operator q = ''contains'')"
proof -
  from assms obtain l1 l2 l3 where
    a: "ACTION s 0 = Inr (l1, action q)" and e: "ELEMENT s l1 = Inr (l2, element q)"
    and o: "OPERATOR s l2 = Inr (l3, operator q)"
    by (rule parse_query_string_Inr)
  from ACTION_result [OF a] ELEMENT_result [OF e] OPERATOR_result [OF o]
  show ?thesis by simp
qed

lemma query_read_value:
  assumes "parse_query_string B s = Inr q" "action q = ''read''" "element q = ''value''"
  shows "query B s d = (Response True None (filter (matches_entry snd q operators) d), d)"
  using assms
  by (simp add: query_def query_actions_def query_elements_def execute_query_by_value_def
      scan_loop_read)

lemma query_read_key_scan:
  assumes "parse_query_string B s = Inr q" "action q = ''read''" "element q = ''key''"
    "operator q \<noteq> ''=''"
  shows "query B s d = (Response True None (filter (matches_entry fst q operators) d), d)"
  using assms
  by (simp add: query_def query_actions_def query_elements_def execute_query_by_key_def
      scan_loop_read)

lemma query_delete_value:
  assumes "wf_store d" "parse_query_string B s = Inr q" "action q = ''delete''" "element q = ''value''"
  shows "query B s d = (Response True None (filter (matches_entry snd q operators) d),
                        filter (\<lambda>kv. \<not> matches_entry snd q operators kv) d)"
  using assms scan_loop_delete [of "[]" d snd q operators "[]"]
  by (simp add: query_def query_actions_def query_elements_def execute_query_by_value_def)

lemma query_delete_key_scan:
  assumes "wf_store d" "parse_query_string B s = Inr q" "action q = ''delete''" "element q = ''key''"
    "operator q \<noteq> ''=''"
  shows "query B s d = (Response True None (filter (matches_entry fst q operators) d),
                        filter (\<lambda>kv. \<not> matches_entry fst q operators kv) d)"
  using assms scan_loop_delete [of "[]" d fst q operators "[]"]
  by (simp add: query_def query_actions_def query_elements_def execute_query_by_key_def)

lemma matches_contains:
  "operator q = ''contains'' \<Longrightarrow>
   matches_entry sel q operators kv = (operator_contains (sel kv) (qvalue q) = Inr True)"
  by (simp add: matches_entry_def operators_def)


lemma py_order_incompatible:
  "\<not> ((real_kind (kind_of a) \<and> real_kind (kind_of b)) \<or> (kind_of a = StrKind \<and> kind_of b = StrKind)
               \<or> (kind_of a = ListKind \<and> kind_of b = ListKind)) \<Longrightarrow> py_order c a b = Inl TypeError"
  by (cases a; cases b) (auto simp: real_kind_def)

lemma py_eq_incompatible:
  "kind_of a \<noteq> kind_of b \<Longrightarrow> \<not> (number_kind (kind_of a) \<and> number_kind (kind_of b)) \<Longrightarrow> \<not> py_eq a b"
  by (cases a; cases b) (auto simp: number_kind_def)

lemma contains_incompatible:
  "(kind_of a \<noteq> StrKind \<and> kind_of a \<noteq> ListKind) \<or> (kind_of a = StrKind \<and> kind_of b \<noteq> StrKind)
   \<Longrightarrow> operator_contains a b = Inl TypeError"
  by (cases a; cases b) auto

lemma operator_order_eqs:
  "operator_gt = py_order Gt" "operator_lt = py_order Lt"
  "operator_le = py_order Le" "operator_ge = py_order Ge"
  by (simp_all add: fun_eq_iff operator_gt_def operator_lt_def operator_le_def operator_ge_def)

lemma incompatible_no_match:
  assumes "incompatible (operator q) (kind_of (sel kv)) (kind_of (qvalue q))"
  shows "\<not> matches_entry sel q operators kv"
proof (cases "operators (operator q)")
  case None
  then show ?thesis by (simp add: matches_entry_def)
next
  case (Some f)
  consider "operator q = ''contains''" | "operator q = ''=''"
    | c where "operator q \<noteq> ''contains''" "operator q \<noteq> ''=''" "f = py_order c"
  proof -
    have "operator q = ''contains'' \<or> operator q = ''='' \<or> (\<exists>c. f = py_order c)"
      using Some
      by (auto simp: operators_def operator_order_eqs split: if_splits)
    then show ?thesis using that by blast
  qed
  then show ?thesis
  proof cases
    case 1
    with assms show ?thesis
      by (simp add: matches_entry_def operators_def incompatible_def contains_incompatible)
  next
    case 2
    with assms show ?thesis
      by (simp add: matches_entry_def operators_def incompatible_def operator_eq_def
          py_eq_incompatible)
  next
    case 3
    with assms Some show ?thesis
      by (simp add: matches_entry_def incompatible_def py_order_incompatible)
  qed
qed

lemma query_scan:
  assumes "wf_store d" and "parse_query_string B s = Inr q"
    and "element q = ''value'' \<or> operator q \<noteq> ''=''"
  shows "fst (query B s d) = Response True None (filter (matches_entry (operand q) q operators) d)
       \<and> (snd (query B s d) = d
          \<or> snd (query B s d) = filter (\<lambda>kv. \<not> matches_entry (operand q) q operators kv) d)"
proof -
  from parse_fields [OF assms(2)]
  have a: "action q = ''read'' \<or> action q = ''delete''"
    and e: "element q = ''key'' \<or> element q = ''value''" by simp_all
  from e show ?thesis
  proof
    assume k: "element q = ''key''"
    with assms(3) have ne: "operator q \<noteq> ''=''" by simp
    from a show ?thesis
    proof
      assume r: "action q = ''read''"
      from query_read_key_scan [OF assms(2) r k ne] k show ?thesis by (simp add: operand_def)
    next
      assume r: "action q = ''delete''"
      from query_delete_key_scan [OF assms(1,2) r k ne] k show ?thesis by (simp add: operand_def)
    qed
  next
    assume v: "element q = ''value''"
    from a show ?thesis
    proof
      assume r: "action q = ''read''"
      from query_read_value [OF assms(2) r v] v show ?thesis by (simp add: operand_def)
    next
      assume r: "action q = ''delete''"
      from query_delete_value [OF assms(1,2) r v] v show ?thesis by (simp add: operand_def)
    qed
  qed
qed

lemma query_parse_error:
  "parse_query_string B s = Inl e \<Longrightarrow> query B s d = (send_error ''Invalid query syntax.'', d)"
  by (simp add: query_def)

lemma query_parse_ok:
  assumes "parse_query_string B s = Inr q"
  shows "\<exists>ms d'. query B s d = (Response True None ms, d')"
proof -
  from parse_fields [OF assms]
  have a: "action q = ''read'' \<or> action q = ''delete''"
    and e: "element q = ''key'' \<or> element q = ''value''" by simp_all
  from a e assms show ?thesis
    by (auto simp: query_def query_actions_def query_elements_def split: prod.splits)
qed

lemma Keyword_no_prefix:
  assumes "\<not> prefix m (dropWhile (\<lambda>c. c \<in> set white_chars) (drop loc s))"
  shows "Keyword m s loc = Inl ParseException"
proof -
  have "drop (preParse s loc) s = dropWhile (\<lambda>c. c \<in> set white_chars) (drop loc s)"
    by (simp add: preParse_def dropWhile_eq_drop add.commute)
  moreover have "take (length m) ys = m \<Longrightarrow> prefix m ys" for ys :: string
    by (metis take_is_prefix)
  ultimately show ?thesis using assms
    by (auto simp: Keyword_def Let_def)
qed

section \<open>The parser and the tokens\<close>

lemma drop_preParse: "drop (preParse s loc) s = dropWhile white (drop loc s)"
  by (simp add: preParse_def dropWhile_eq_drop add.commute)

lemma preParse_no_white:
  "drop loc s = c # r \<Longrightarrow> \<not> white c \<Longrightarrow> preParse s loc = loc"
  by (simp add: preParse_def)

text \<open>What a successful keyword match says about the rest of the string.\<close>

lemma Keyword_Inr:
  assumes "Keyword m s loc0 = Inr (l, t)"
  shows "t = m"
    and "l = preParse s loc0 + length m"
    and "dropWhile white (drop loc0 s) = m @ drop l s"
    and "drop l s = [] \<or> hd (drop l s) \<notin> set identChars"
    and "preParse s loc0 = 0 \<or> s ! (preParse s loc0 - 1) \<notin> set identChars"
proof -
  let ?p = "preParse s loc0"
  from assms have tm: "t = m" and l: "l = ?p + length m"
    and tk: "take (length m) (drop ?p s) = m"
    and post: "length s \<le> l \<or> s ! l \<notin> set identChars"
    and pre: "?p = 0 \<or> s ! (?p - 1) \<notin> set identChars"
    by (auto simp: Keyword_def Let_def split: if_splits)
  show "t = m" by (rule tm)
  show "l = ?p + length m" by (rule l)
  have "drop ?p s = take (length m) (drop ?p s) @ drop (length m) (drop ?p s)"
    by (simp only: append_take_drop_id)
  also have "\<dots> = m @ drop l s" using tk l by (simp add: add.commute)
  finally show "dropWhile white (drop loc0 s) = m @ drop l s" by (simp add: drop_preParse)
  show "drop l s = [] \<or> hd (drop l s) \<notin> set identChars"
  proof (cases "length s \<le> l")
    case True
    then show ?thesis by simp
  next
    case False
    then have "hd (drop l s) = s ! l" by (simp add: hd_drop_conv_nth)
    with post False show ?thesis by simp
  qed
  show "?p = 0 \<or> s ! (?p - 1) \<notin> set identChars" by (rule pre)
qed


lemma dropWhile_white_Cons:
  "dropWhile white r = c # r' \<Longrightarrow> \<not> white c"
  by (metis hd_dropWhile list.sel(1) list.distinct(1))

text \<open>Between a keyword and a following keyword that starts with an identifier
  character there is white space.\<close>

lemma white_after_keyword:
  assumes k1: "Keyword m1 s loc0 = Inr (l1, t1)"
    and k2: "Keyword m2 s l1 = Inr (l2, t2)"
    and m2: "m2 \<noteq> []" "hd m2 \<in> set identChars"
  shows "\<exists>w r. drop l1 s = w # r \<and> white w"
proof -
  from Keyword_Inr(3) [OF k2] m2(1) have ne: "drop l1 s \<noteq> []" by auto
  then obtain w r where wr: "drop l1 s = w # r" by (cases "drop l1 s") auto
  show ?thesis
  proof (cases "white w")
    case True
    with wr show ?thesis by blast
  next
    case False
    with wr Keyword_Inr(3) [OF k2] have "w # r = m2 @ drop l2 s" by simp
    with m2(1) have "w = hd m2" by (cases m2) auto
    with m2(2) Keyword_Inr(4) [OF k1] wr show ?thesis by simp
  qed
qed

text \<open>Between a keyword that ends with an identifier character and a following
  keyword there is white space.\<close>

lemma white_before_keyword:
  assumes k1: "Keyword m1 s loc0 = Inr (l1, t1)"
    and k2: "Keyword m2 s l1 = Inr (l2, t2)"
    and m1: "m1 \<noteq> []" "last m1 \<in> set identChars"
    and m2: "m2 \<noteq> []"
  shows "\<exists>w r. drop l1 s = w # r \<and> white w"
proof -
  from Keyword_Inr(3) [OF k2] m2 have ne: "drop l1 s \<noteq> []" by auto
  then obtain w r where wr: "drop l1 s = w # r" by (cases "drop l1 s") auto
  show ?thesis
  proof (cases "white w")
    case True
    with wr show ?thesis by blast
  next
    case False
    with wr have p2: "preParse s l1 = l1" by (simp add: preParse_no_white)
    let ?p = "preParse s loc0"
    have l1: "l1 = ?p + length m1" by (rule Keyword_Inr(2) [OF k1])
    have "drop ?p s = m1 @ drop l1 s"
      using Keyword_Inr(3) [OF k1] by (simp add: drop_preParse)
    then have "drop ?p s ! (length m1 - 1) = last m1"
      using m1(1) by (simp add: nth_append last_conv_nth)
    moreover have "?p + (length m1 - 1) < length s"
      using ne l1 m1(1) by (cases m1) auto
    ultimately have "s ! (l1 - 1) = last m1"
      using l1 m1(1) by (cases m1) (auto simp: nth_drop)
    moreover have "l1 \<noteq> 0" using l1 m1(1) by simp
    ultimately show ?thesis using Keyword_Inr(5) [OF k2] p2 m1(2) by simp
  qed
qed


lemma toks_Nil: "dropWhile white s = [] \<Longrightarrow> spec_tokens s = []"
  by (simp add: spec_tokens.simps)

lemma toks_not_Nil: "dropWhile white s \<noteq> [] \<Longrightarrow> spec_tokens s \<noteq> []"
  by (subst spec_tokens.simps) (simp add: Let_def)

lemma toks_step:
  assumes "dropWhile white s = m @ r" and "m \<noteq> []" and "\<forall>c\<in>set m. \<not> white c"
    and "r = [] \<or> white (hd r)"
  shows "spec_tokens s = m # spec_tokens r"
proof -
  have tw: "takeWhile (\<lambda>c. \<not> white c) (m @ r) = m"
    using assms(3,4) by (cases r) (auto simp: takeWhile_append2)
  have dw: "dropWhile (\<lambda>c. \<not> white c) (m @ r) = r"
    using assms(3,4) by (cases r) (auto simp: dropWhile_append2)
  show ?thesis
    using assms(1,2) tw dw by (subst spec_tokens.simps) (simp add: Let_def)
qed

lemma toks_prefix:
  assumes "dropWhile white s = m @ r" and "m \<noteq> []" and "\<forall>c\<in>set m. \<not> white c"
  shows "\<exists>t ts. spec_tokens s = t # ts \<and> prefix m t \<and> (t = m \<longrightarrow> spec_tokens r = ts)"
proof -
  let ?t = "takeWhile (\<lambda>c. \<not> white c) (m @ r)"
  let ?ts = "spec_tokens (dropWhile (\<lambda>c. \<not> white c) (m @ r))"
  have t: "?t = m @ takeWhile (\<lambda>c. \<not> white c) r"
    using assms(3) by (simp add: takeWhile_append2)
  have d: "dropWhile (\<lambda>c. \<not> white c) (m @ r) = dropWhile (\<lambda>c. \<not> white c) r"
    using assms(3) by (simp add: dropWhile_append2)
  have 1: "spec_tokens s = ?t # ?ts"
    using assms(1,2) by (subst spec_tokens.simps) (simp add: Let_def)
  have 2: "prefix m ?t" using t by simp
  have 3: "?t = m \<longrightarrow> spec_tokens r = ?ts"
  proof
    assume "?t = m"
    with t have "takeWhile (\<lambda>c. \<not> white c) r = []" by simp
    then have "dropWhile (\<lambda>c. \<not> white c) r = r"
      by (cases r) (auto split: if_splits)
    with d show "spec_tokens r = ?ts" by simp
  qed
  from 1 2 3 show ?thesis by blast
qed

lemma Word_printables_Inr:
  assumes "Word_printables s loc = Inr x"
  shows "dropWhile white (drop loc s) \<noteq> []"
proof
  assume "dropWhile white (drop loc s) = []"
  then have "takeWhile printable (drop (preParse s loc) s) = []"
    by (simp only: drop_preParse takeWhile.simps)
  with assms show False by (simp add: Word_printables_def Let_def)
qed

lemma VALUE_Inr:
  assumes "VALUE s loc = Inr x"
  shows "dropWhile white (drop loc s) \<noteq> []"
proof -
  have "\<exists>y. Word_printables s loc = Inr y"
    using assms
    by (cases "Word_printables s loc")
       (auto simp: VALUE_def MatchFirst_def typed_VALUE_def plain_VALUE_def)
  then show ?thesis by (auto dest: Word_printables_Inr)
qed

lemma ACTION_Keyword:
  "ACTION s loc = Inr (l, t) \<Longrightarrow>
   Keyword t s loc = Inr (l, t) \<and> (t = ''read'' \<or> t = ''delete'')"
  unfolding ACTION_def
  by (elim MatchFirstE; frule Keyword_result; simp)

lemma ELEMENT_Keyword:
  "ELEMENT s loc = Inr (l, t) \<Longrightarrow>
   Keyword t s loc = Inr (l, t) \<and> (t = ''key'' \<or> t = ''value'')"
  unfolding ELEMENT_def
  by (elim MatchFirstE; frule Keyword_result; simp)

lemma OPERATOR_Keyword:
  "OPERATOR s loc = Inr (l, t) \<Longrightarrow>
   Keyword t s loc = Inr (l, t) \<and>
   (t = ''<='' \<or> t = ''>='' \<or> t = ''<'' \<or> t = ''>'' \<or> t = ''='' \<or> t = ''contains'')"
  unfolding OPERATOR_def
  by (elim MatchFirstE; frule Keyword_result; simp)

lemma parse_positions:
  assumes "parse_query_string B s = Inr q"
  obtains l2 l3 l4 vt v where
    "OPERATOR s l2 = Inr (l3, operator q)"
    "VALUE s l3 = Inr (l4, (vt, v))"
    "spec_tokens s = action q # element q # spec_tokens (drop l2 s)"
    "case vt of None \<Rightarrow> qvalue q = PyStr v | Some t \<Rightarrow> parse_value_to_type B v t = Inr (qvalue q)"
proof -
  from assms obtain l1 l2 l3 l4 vt v where
    a: "ACTION s 0 = Inr (l1, action q)" and e: "ELEMENT s l1 = Inr (l2, element q)"
    and o: "OPERATOR s l2 = Inr (l3, operator q)" and v: "VALUE s l3 = Inr (l4, (vt, v))"
    and c: "case vt of None \<Rightarrow> qvalue q = PyStr v
            | Some t \<Rightarrow> parse_value_to_type B v t = Inr (qvalue q)"
    by (rule parse_query_string_Inr)
  from ACTION_Keyword [OF a] have ka: "Keyword (action q) s 0 = Inr (l1, action q)"
    and av: "action q = ''read'' \<or> action q = ''delete''" by simp_all
  from ELEMENT_Keyword [OF e] have ke: "Keyword (element q) s l1 = Inr (l2, element q)"
    and ev: "element q = ''key'' \<or> element q = ''value''" by simp_all
  from OPERATOR_Keyword [OF o] have ko: "Keyword (operator q) s l2 = Inr (l3, operator q)"
    and ov: "operator q = ''<='' \<or> operator q = ''>='' \<or> operator q = ''<''
             \<or> operator q = ''>'' \<or> operator q = ''='' \<or> operator q = ''contains''"
    by simp_all
  have a_nw: "action q \<noteq> [] \<and> (\<forall>c\<in>set (action q). \<not> white c)"
    using av by (auto simp: white_chars_def)
  have e_nw: "element q \<noteq> [] \<and> (\<forall>c\<in>set (element q). \<not> white c)
              \<and> hd (element q) \<in> set identChars \<and> last (element q) \<in> set identChars"
    using ev by (auto simp: white_chars_def identChars_def)
  have o_nw: "operator q \<noteq> []" using ov by auto
  from white_after_keyword [OF ka ke] e_nw
  have w1: "drop l1 s = [] \<or> white (hd (drop l1 s))" by auto
  from white_before_keyword [OF ke ko] e_nw o_nw
  have w2: "drop l2 s = [] \<or> white (hd (drop l2 s))" by auto
  from Keyword_Inr(3) [OF ka] have "dropWhile white s = action q @ drop l1 s" by simp
  from toks_step [OF this] a_nw w1 have t1: "spec_tokens s = action q # spec_tokens (drop l1 s)" by simp
  from toks_step [OF Keyword_Inr(3) [OF ke]] e_nw w2
  have t2: "spec_tokens (drop l1 s) = element q # spec_tokens (drop l2 s)" by simp
  from t1 t2 have t: "spec_tokens s = action q # element q # spec_tokens (drop l2 s)" by simp
  from that [OF o v t c] show ?thesis .
qed

lemma parse_tokens:
  assumes "parse_query_string B s = Inr q"
  shows "\<exists>t3 rest. spec_tokens s = action q # element q # t3 # rest
           \<and> prefix (operator q) t3 \<and> (t3 = operator q \<longrightarrow> rest \<noteq> [])"
proof -
  from assms obtain l2 l3 l4 vt v where
    o: "OPERATOR s l2 = Inr (l3, operator q)" and v: "VALUE s l3 = Inr (l4, (vt, v))"
    and t12: "spec_tokens s = action q # element q # spec_tokens (drop l2 s)"
    by (rule parse_positions)
  from OPERATOR_Keyword [OF o] have ko: "Keyword (operator q) s l2 = Inr (l3, operator q)"
    and ov: "operator q = ''<='' \<or> operator q = ''>='' \<or> operator q = ''<''
             \<or> operator q = ''>'' \<or> operator q = ''='' \<or> operator q = ''contains''"
    by simp_all
  have o_nw: "operator q \<noteq> [] \<and> (\<forall>c\<in>set (operator q). \<not> white c)"
    using ov by (auto simp: white_chars_def)
  from toks_prefix [OF Keyword_Inr(3) [OF ko]] o_nw
  obtain t3 ts where t3: "spec_tokens (drop l2 s) = t3 # ts" "prefix (operator q) t3"
    "t3 = operator q \<longrightarrow> spec_tokens (drop l3 s) = ts" by auto
  from VALUE_Inr [OF v] have "spec_tokens (drop l3 s) \<noteq> []" by (rule toks_not_Nil)
  with t12 t3 show ?thesis by auto
qed


lemma drop_app_drop: "drop p s = m @ r \<Longrightarrow> drop (p + length m) s = r"
  by (metis add.commute append_eq_conv_conj drop_drop)

text \<open>From the tokens to what the parser elements return.\<close>

lemma toks_ConsD:
  assumes "spec_tokens r = t # ts"
  obtains r' where "dropWhile white r = t @ r'" "t \<noteq> []" "\<forall>c\<in>set t. \<not> white c"
    "r' = [] \<or> white (hd r')" "spec_tokens r' = ts"
proof -
  let ?d = "dropWhile white r"
  let ?r' = "dropWhile (\<lambda>c. \<not> white c) ?d"
  have ne: "?d \<noteq> []"
  proof
    assume "?d = []"
    then have "spec_tokens r = []" by (rule toks_Nil)
    with assms show False by simp
  qed
  have "spec_tokens r = takeWhile (\<lambda>c. \<not> white c) ?d # spec_tokens ?r'"
    using ne by (subst spec_tokens.simps) (simp add: Let_def)
  with assms have t: "t = takeWhile (\<lambda>c. \<not> white c) ?d" and ts: "ts = spec_tokens ?r'"
    by simp_all
  have 1: "?d = t @ ?r'" using t by simp
  from ne have "\<not> white (hd ?d)" by (rule hd_dropWhile)
  with ne t have 2: "t \<noteq> []" by (cases ?d) auto
  have 3: "\<forall>c\<in>set t. \<not> white c" using t by (auto dest: set_takeWhileD)
  have 4: "?r' = [] \<or> white (hd ?r')" using hd_dropWhile [of "\<lambda>c. \<not> white c" ?d] by auto
  from 1 2 3 4 ts show ?thesis using that [of ?r'] by simp
qed

lemma Keyword_ok:
  assumes "dropWhile white (drop loc0 s) = m @ r"
    and "r = [] \<or> hd r \<notin> set identChars"
    and "preParse s loc0 = 0 \<or> s ! (preParse s loc0 - 1) \<notin> set identChars"
  shows "Keyword m s loc0 = Inr (preParse s loc0 + length m, m)"
proof -
  let ?p = "preParse s loc0"
  from assms(1) have d: "drop ?p s = m @ r" by (simp add: drop_preParse)
  then have tk: "take (length m) (drop ?p s) = m" by simp
  have dr: "drop (?p + length m) s = r"
    using d by (simp add: drop_app_drop)
  have post: "length s \<le> ?p + length m \<or> s ! (?p + length m) \<notin> set identChars"
  proof (cases "length s \<le> ?p + length m")
    case True
    then show ?thesis by simp
  next
    case False
    then have "hd (drop (?p + length m) s) = s ! (?p + length m)"
      by (simp add: hd_drop_conv_nth)
    moreover from False dr have "r \<noteq> []" by auto
    ultimately show ?thesis using assms(2) dr by simp
  qed
  from tk post assms(3) show ?thesis by (simp add: Keyword_def Let_def)
qed

lemma Literal_ok:
  assumes "dropWhile white (drop loc0 s) = m @ r"
  shows "Literal m s loc0 = Inr (preParse s loc0 + length m, m)"
    and "drop (preParse s loc0 + length m) s = r"
proof -
  let ?p = "preParse s loc0"
  from assms have d: "drop ?p s = m @ r" by (simp add: drop_preParse)
  then show "Literal m s loc0 = Inr (?p + length m, m)" by (simp add: Literal_def Let_def)
  show "drop (?p + length m) s = r"
    using d by (simp add: drop_app_drop)
qed

lemma white_not_printable: "white c \<Longrightarrow> \<not> printable c"
  by (auto simp: white_chars_def printable_def)

lemma Word_ok:
  assumes "dropWhile white (drop loc0 s) = t @ r" and "t \<noteq> []"
    and "\<forall>c\<in>set t. printable c" and "r = [] \<or> white (hd r)"
  shows "Word_printables s loc0 = Inr (preParse s loc0 + length t, t)"
    and "drop (preParse s loc0 + length t) s = r"
proof -
  let ?p = "preParse s loc0"
  from assms(1) have d: "drop ?p s = t @ r" by (simp add: drop_preParse)
  have "takeWhile printable (t @ r) = t"
    using assms(3,4) by (cases r) (auto simp: takeWhile_append2 white_not_printable)
  with d assms(2) show "Word_printables s loc0 = Inr (?p + length t, t)"
    by (simp add: Word_printables_def Let_def)
  show "drop (?p + length t) s = r"
    using d by (simp add: drop_app_drop)
qed


lemma white_not_ident: "white c \<Longrightarrow> c \<notin> set identChars"
  by (auto simp: white_chars_def identChars_def)

lemma OPERATOR_ok:
  assumes d: "dropWhile white (drop l2 s) = t3 @ r'"
    and r': "r' = [] \<or> white (hd r')"
    and pre: "preParse s l2 = 0 \<or> s ! (preParse s l2 - 1) \<notin> set identChars"
    and t3: "t3 = ''<='' \<or> t3 = ''>='' \<or> t3 = ''<'' \<or> t3 = ''>'' \<or> t3 = ''='' \<or> t3 = ''contains''"
  shows "OPERATOR s l2 = Inr (preParse s l2 + length t3, t3)"
proof -
  from r' have post: "r' = [] \<or> hd r' \<notin> set identChars" by (auto simp: white_not_ident)
  have ok: "Keyword t3 s l2 = Inr (preParse s l2 + length t3, t3)"
    using d post pre by (rule Keyword_ok)
  have no: "\<not> prefix m (t3 @ r') \<Longrightarrow> Keyword m s l2 = Inl ParseException" for m
    using Keyword_no_prefix [of m l2 s] d by simp
  have w: "r' = [] \<or> (\<exists>c r. r' = c # r \<and> white c)" using r' by (cases r') auto
  from t3 show ?thesis
  proof (elim disjE)
    assume "t3 = ''<=''"
    with ok show ?thesis by (simp add: OPERATOR_def MatchFirst_def)
  next
    assume t: "t3 = ''>=''"
    have "Keyword ''<='' s l2 = Inl ParseException" by (rule no) (simp add: t)
    with ok t show ?thesis by (simp add: OPERATOR_def MatchFirst_def)
  next
    assume t: "t3 = ''<''"
    have "Keyword ''<='' s l2 = Inl ParseException"
      using w by (intro no) (auto simp: t white_chars_def)
    moreover have "Keyword ''>='' s l2 = Inl ParseException" by (rule no) (simp add: t)
    ultimately show ?thesis using ok t by (simp add: OPERATOR_def MatchFirst_def)
  next
    assume t: "t3 = ''>''"
    have "Keyword ''<='' s l2 = Inl ParseException" by (rule no) (simp add: t)
    moreover have "Keyword ''>='' s l2 = Inl ParseException"
      using w by (intro no) (auto simp: t white_chars_def)
    moreover have "Keyword ''<'' s l2 = Inl ParseException" by (rule no) (simp add: t)
    ultimately show ?thesis using ok t by (simp add: OPERATOR_def MatchFirst_def)
  next
    assume t: "t3 = ''=''"
    have "Keyword ''<='' s l2 = Inl ParseException" by (rule no) (simp add: t)
    moreover have "Keyword ''>='' s l2 = Inl ParseException" by (rule no) (simp add: t)
    moreover have "Keyword ''<'' s l2 = Inl ParseException" by (rule no) (simp add: t)
    moreover have "Keyword ''>'' s l2 = Inl ParseException" by (rule no) (simp add: t)
    ultimately show ?thesis using ok t by (simp add: OPERATOR_def MatchFirst_def)
  next
    assume t: "t3 = ''contains''"
    have "Keyword ''<='' s l2 = Inl ParseException" by (rule no) (simp add: t)
    moreover have "Keyword ''>='' s l2 = Inl ParseException" by (rule no) (simp add: t)
    moreover have "Keyword ''<'' s l2 = Inl ParseException" by (rule no) (simp add: t)
    moreover have "Keyword ''>'' s l2 = Inl ParseException" by (rule no) (simp add: t)
    moreover have "Keyword ''='' s l2 = Inl ParseException" by (rule no) (simp add: t)
    ultimately show ?thesis using ok t by (simp add: OPERATOR_def MatchFirst_def)
  qed
qed

lemma operator_choice:
  assumes o: "OPERATOR s l2 = Inr (l3, opr)"
    and tk: "spec_tokens (drop l2 s) = t3 # ts"
    and t3: "t3 = ''<='' \<or> t3 = ''>='' \<or> t3 = ''<'' \<or> t3 = ''>'' \<or> t3 = ''='' \<or> t3 = ''contains''"
  shows "opr = t3" and "spec_tokens (drop l3 s) = ts"
proof -
  from tk obtain r' where d: "dropWhile white (drop l2 s) = t3 @ r'"
    and r': "r' = [] \<or> white (hd r')" and ts: "spec_tokens r' = ts"
    by (rule toks_ConsD)
  from OPERATOR_Keyword [OF o] have ko: "Keyword opr s l2 = Inr (l3, opr)" by simp
  from OPERATOR_ok [OF d r' Keyword_Inr(5) [OF ko] t3] o
  have l3: "l3 = preParse s l2 + length t3" and opr: "opr = t3" by simp_all
  from d have "drop (preParse s l2) s = t3 @ r'" by (simp add: drop_preParse)
  then have "drop l3 s = r'" unfolding l3 by (rule drop_app_drop)
  with ts show "spec_tokens (drop l3 s) = ts" by simp
  show "opr = t3" by (rule opr)
qed

lemma Word_tok:
  assumes "spec_tokens (drop loc s) = t # ts" and "\<forall>c\<in>set (drop loc s). white c \<or> printable c"
  obtains l where "Word_printables s loc = Inr (l, t)" "spec_tokens (drop l s) = ts"
    "\<forall>c\<in>set (drop l s). white c \<or> printable c"
proof -
  from assms(1) obtain r' where d: "dropWhile white (drop loc s) = t @ r'"
    and t: "t \<noteq> []" "\<forall>c\<in>set t. \<not> white c"
    and r': "r' = [] \<or> white (hd r')" and ts: "spec_tokens r' = ts"
    by (rule toks_ConsD)
  have sub: "set (t @ r') \<subseteq> set (drop loc s)"
    using d set_dropWhileD [of _ white "drop loc s"] by auto
  with assms(2) t(2) have tp: "\<forall>c\<in>set t. printable c" by auto
  let ?l = "preParse s loc + length t"
  have w: "Word_printables s loc = Inr (?l, t)" using d t(1) tp r' by (rule Word_ok(1))
  have dr: "drop ?l s = r'" using d t(1) tp r' by (rule Word_ok(2))
  from sub assms(2) dr have "\<forall>c\<in>set (drop ?l s). white c \<or> printable c" by auto
  with w dr ts show ?thesis using that [of ?l] by simp
qed

lemma Literal_tok:
  assumes "spec_tokens (drop loc s) = m # ts" and "\<forall>c\<in>set (drop loc s). white c \<or> printable c"
  obtains l where "Literal m s loc = Inr (l, m)" "spec_tokens (drop l s) = ts"
    "\<forall>c\<in>set (drop l s). white c \<or> printable c"
proof -
  from assms(1) obtain r' where d: "dropWhile white (drop loc s) = m @ r'"
    and ts: "spec_tokens r' = ts"
    by (rule toks_ConsD)
  have sub: "set (m @ r') \<subseteq> set (drop loc s)"
    using d set_dropWhileD [of _ white "drop loc s"] by auto
  let ?l = "preParse s loc + length m"
  have w: "Literal m s loc = Inr (?l, m)" using d by (rule Literal_ok(1))
  have dr: "drop ?l s = r'" using d by (rule Literal_ok(2))
  from sub assms(2) dr have "\<forall>c\<in>set (drop ?l s). white c \<or> printable c" by auto
  with w dr ts show ?thesis using that [of ?l] by simp
qed

lemma typed_VALUE_ok:
  assumes "spec_tokens (drop l3 s) = T # ''('' # L # '')'' # rest"
    and "\<forall>c\<in>set (drop l3 s). white c \<or> printable c"
  shows "\<exists>l4. VALUE s l3 = Inr (l4, (Some T, L))"
proof -
  from assms obtain p1 where 1: "Word_printables s l3 = Inr (p1, T)"
    and t1: "spec_tokens (drop p1 s) = ''('' # L # '')'' # rest"
    and c1: "\<forall>c\<in>set (drop p1 s). white c \<or> printable c"
    by (rule Word_tok)
  from t1 c1 obtain p2 where 2: "Literal ''('' s p1 = Inr (p2, ''('')"
    and t2: "spec_tokens (drop p2 s) = L # '')'' # rest"
    and c2: "\<forall>c\<in>set (drop p2 s). white c \<or> printable c"
    by (rule Literal_tok)
  from t2 c2 obtain p3 where 3: "Word_printables s p2 = Inr (p3, L)"
    and t3: "spec_tokens (drop p3 s) = '')'' # rest"
    and c3: "\<forall>c\<in>set (drop p3 s). white c \<or> printable c"
    by (rule Word_tok)
  from t3 c3 obtain p4 where 4: "Literal '')'' s p3 = Inr (p4, '')'')"
    by (rule Literal_tok)
  from 1 2 3 4 have "typed_VALUE s l3 = Inr (p4, (Some T, L))"
    by (simp add: typed_VALUE_def)
  then show ?thesis by (simp add: VALUE_def MatchFirst_def)
qed

lemma typed_conversion_raises:
  assumes pr: "\<forall>c\<in>set s. white c \<or> printable c"
    and tk: "spec_tokens s = a # e # opr # T # ''('' # L # '')'' # rest"
    and opr: "opr = ''<='' \<or> opr = ''>='' \<or> opr = ''<'' \<or> opr = ''>'' \<or> opr = ''=''
              \<or> opr = ''contains''"
    and conv: "parse_value_to_type B L T = Inl x"
  shows "\<exists>err. parse_query_string B s = Inl err"
proof (cases "parse_query_string B s")
  case (Inl err)
  then show ?thesis by blast
next
  case (Inr q)
  then obtain l2 l3 l4 vt v where
    o: "OPERATOR s l2 = Inr (l3, operator q)" and v: "VALUE s l3 = Inr (l4, (vt, v))"
    and t12: "spec_tokens s = action q # element q # spec_tokens (drop l2 s)"
    and c: "case vt of None \<Rightarrow> qvalue q = PyStr v
            | Some t \<Rightarrow> parse_value_to_type B v t = Inr (qvalue q)"
    by (rule parse_positions)
  from tk t12 have t3: "spec_tokens (drop l2 s) = opr # T # ''('' # L # '')'' # rest" by simp
  from operator_choice(2) [OF o t3 opr]
  have t4: "spec_tokens (drop l3 s) = T # ''('' # L # '')'' # rest" .
  from pr have "\<forall>c\<in>set (drop l3 s). white c \<or> printable c"
    by (auto dest: in_set_dropD)
  from typed_VALUE_ok [OF t4 this] v have "vt = Some T" "v = L" by auto
  with c conv show ?thesis by simp
qed

section \<open>From the tokens to the parse\<close>

lemma preParse_prev:
  assumes "preParse s loc \<noteq> loc"
  shows "white (s ! (preParse s loc - 1))"
proof -
  let ?t = "takeWhile white (drop loc s)"
  from assms have n: "?t \<noteq> []" by (auto simp: preParse_def)
  then have "drop loc s \<noteq> []" by auto
  then have loc: "loc < length s" by simp
  have p: "preParse s loc = loc + length ?t" by (simp add: preParse_def)
  have "length ?t - 1 < length ?t" using n by simp
  then have "?t ! (length ?t - 1) = drop loc s ! (length ?t - 1)" by (rule takeWhile_nth)
  also have "\<dots> = s ! (loc + (length ?t - 1))" using loc by simp
  also have "loc + (length ?t - 1) = preParse s loc - 1" using p n by (cases ?t) auto
  finally have "s ! (preParse s loc - 1) = ?t ! (length ?t - 1)" by simp
  moreover have "?t ! (length ?t - 1) \<in> set ?t" using n by simp
  ultimately show ?thesis by (auto dest: set_takeWhileD)
qed

lemma pre_ok:
  assumes "loc = 0 \<or> white (hd (drop loc s))" and "drop loc s \<noteq> []"
  shows "preParse s loc = 0 \<or> s ! (preParse s loc - 1) \<notin> set identChars"
proof (cases "preParse s loc = loc")
  case True
  have "\<not> white (hd (drop loc s))"
  proof
    assume "white (hd (drop loc s))"
    with assms(2) have "takeWhile white (drop loc s) \<noteq> []" by (cases "drop loc s") auto
    with True show False by (simp add: preParse_def)
  qed
  with assms(1) True show ?thesis by simp
next
  case False
  from preParse_prev [OF False] have "s ! (preParse s loc - 1) \<notin> set identChars"
    by (rule white_not_ident)
  then show ?thesis by simp
qed

lemma toks_drop_nonempty: "spec_tokens r = t # ts \<Longrightarrow> r \<noteq> []"
  by (auto simp: toks_Nil)

lemma Keyword_tok:
  assumes tk: "spec_tokens (drop loc s) = m # ts"
    and c: "loc = 0 \<or> drop loc s = [] \<or> white (hd (drop loc s))"
  shows "Keyword m s loc = Inr (preParse s loc + length m, m)"
    and "spec_tokens (drop (preParse s loc + length m) s) = ts"
    and "drop (preParse s loc + length m) s = [] \<or> white (hd (drop (preParse s loc + length m) s))"
proof -
  from tk obtain r' where d: "dropWhile white (drop loc s) = m @ r'"
    and r': "r' = [] \<or> white (hd r')" and ts: "spec_tokens r' = ts"
    by (rule toks_ConsD)
  from tk have ne: "drop loc s \<noteq> []" by (rule toks_drop_nonempty)
  with c have "loc = 0 \<or> white (hd (drop loc s))" by blast
  then have pre: "preParse s loc = 0 \<or> s ! (preParse s loc - 1) \<notin> set identChars"
    using ne by (rule pre_ok)
  from r' have post: "r' = [] \<or> hd r' \<notin> set identChars" by (auto simp: white_not_ident)
  show "Keyword m s loc = Inr (preParse s loc + length m, m)"
    using d post pre by (rule Keyword_ok)
  from d have "drop (preParse s loc) s = m @ r'" by (simp add: drop_preParse)
  then have dr: "drop (preParse s loc + length m) s = r'" by (rule drop_app_drop)
  with ts show "spec_tokens (drop (preParse s loc + length m) s) = ts" by simp
  from dr r' show "drop (preParse s loc + length m) s = []
      \<or> white (hd (drop (preParse s loc + length m) s))" by simp
qed

lemma Keyword_other_token:
  assumes tk: "spec_tokens (drop loc s) = t # ts" and "\<not> prefix m t" and "\<forall>c\<in>set m. \<not> white c"
  shows "Keyword m s loc = Inl ParseException"
proof -
  from tk obtain r' where d: "dropWhile white (drop loc s) = t @ r'"
    and r': "r' = [] \<or> white (hd r')"
    by (rule toks_ConsD)
  have "\<not> prefix m (t @ r')"
  proof
    assume "prefix m (t @ r')"
    then have "prefix m t \<or> (\<exists>us. m = t @ us \<and> us \<noteq> [] \<and> prefix us r')"
      by (auto simp: prefix_append)
    with assms(2) obtain us where "m = t @ us" "us \<noteq> []" "prefix us r'" by blast
    with r' assms(3) show False by (cases us; cases r') auto
  qed
  with d show ?thesis using Keyword_no_prefix [of m loc s] by simp
qed

lemma ACTION_tok:
  assumes "spec_tokens s = a # ts" and "a = ''read'' \<or> a = ''delete''"
  obtains l where "ACTION s 0 = Inr (l, a)" "spec_tokens (drop l s) = ts"
    "drop l s = [] \<or> white (hd (drop l s))"
proof -
  let ?l = "preParse s 0 + length a"
  from assms(1) have tk: "spec_tokens (drop 0 s) = a # ts" by simp
  note k = Keyword_tok [OF tk]
  have ok: "Keyword a s 0 = Inr (?l, a)" by (rule k(1)) simp
  have "ACTION s 0 = Inr (?l, a)"
  proof (cases "a = ''read''")
    case True
    with ok show ?thesis by (simp add: ACTION_def MatchFirst_def)
  next
    case False
    with assms(2) have a: "a = ''delete''" by simp
    have "Keyword ''read'' s 0 = Inl ParseException"
      by (rule Keyword_other_token [OF tk]) (simp_all add: a white_chars_def)
    with ok a show ?thesis by (simp add: ACTION_def MatchFirst_def)
  qed
  moreover have "spec_tokens (drop ?l s) = ts" by (rule k(2)) simp
  moreover have "drop ?l s = [] \<or> white (hd (drop ?l s))" by (rule k(3)) simp
  ultimately show ?thesis by (rule that)
qed

lemma ELEMENT_tok:
  assumes tk: "spec_tokens (drop loc s) = e # ts" and "e = ''key'' \<or> e = ''value''"
    and c: "drop loc s = [] \<or> white (hd (drop loc s))"
  obtains l where "ELEMENT s loc = Inr (l, e)" "spec_tokens (drop l s) = ts"
    "drop l s = [] \<or> white (hd (drop l s))"
proof -
  let ?l = "preParse s loc + length e"
  from c have c': "loc = 0 \<or> drop loc s = [] \<or> white (hd (drop loc s))" by blast
  note k = Keyword_tok [OF tk c']
  have "ELEMENT s loc = Inr (?l, e)"
  proof (cases "e = ''key''")
    case True
    with k(1) show ?thesis by (simp add: ELEMENT_def MatchFirst_def)
  next
    case False
    with assms(2) have e: "e = ''value''" by simp
    have "Keyword ''key'' s loc = Inl ParseException"
      by (rule Keyword_other_token [OF tk]) (simp_all add: e white_chars_def)
    with k(1) e show ?thesis by (simp add: ELEMENT_def MatchFirst_def)
  qed
  from this k(2,3) show ?thesis by (rule that)
qed

lemma OPERATOR_tok:
  assumes tk: "spec_tokens (drop loc s) = opr # ts" and o: "opr \<in> set operator_keywords"
    and c: "drop loc s = [] \<or> white (hd (drop loc s))"
  obtains l where "OPERATOR s loc = Inr (l, opr)" "spec_tokens (drop l s) = ts"
    "drop l s = [] \<or> white (hd (drop l s))"
proof -
  let ?l = "preParse s loc + length opr"
  from tk obtain r' where d: "dropWhile white (drop loc s) = opr @ r'"
    and r': "r' = [] \<or> white (hd r')"
    by (rule toks_ConsD)
  from c have c': "loc = 0 \<or> drop loc s = [] \<or> white (hd (drop loc s))" by blast
  note k = Keyword_tok [OF tk c']
  from tk have ne: "drop loc s \<noteq> []" by (rule toks_drop_nonempty)
  with c have "loc = 0 \<or> white (hd (drop loc s))" by blast
  then have pre: "preParse s loc = 0 \<or> s ! (preParse s loc - 1) \<notin> set identChars"
    using ne by (rule pre_ok)
  from o have "opr = ''<='' \<or> opr = ''>='' \<or> opr = ''<'' \<or> opr = ''>'' \<or> opr = ''=''
      \<or> opr = ''contains''" by (simp add: operator_keywords_def)
  from OPERATOR_ok [OF d r' pre this] k(2,3) show ?thesis by (rule that)
qed

lemma toks_Nil_D: "spec_tokens r = [] \<Longrightarrow> dropWhile white r = []"
  using toks_not_Nil by blast

lemma Literal_fails_at_end:
  assumes "spec_tokens (drop loc s) = []" and "m \<noteq> []"
  shows "Literal m s loc = Inl ParseException"
proof -
  from assms(1) have "dropWhile white (drop loc s) = []" by (rule toks_Nil_D)
  then have "drop (preParse s loc) s = []" by (simp only: drop_preParse)
  with assms(2) show ?thesis by (simp add: Literal_def Let_def)
qed

lemma plain_VALUE_ok:
  assumes tk: "spec_tokens (drop l3 s) = [X]"
    and pr: "\<forall>c\<in>set (drop l3 s). white c \<or> printable c"
  shows "\<exists>l4. VALUE s l3 = Inr (l4, (None, X))"
proof -
  from tk pr obtain l where w: "Word_printables s l3 = Inr (l, X)"
    and t: "spec_tokens (drop l s) = []"
    by (rule Word_tok)
  have "Literal ''('' s l = Inl ParseException"
    using t by (rule Literal_fails_at_end) simp
  with w have "typed_VALUE s l3 = Inl ParseException" by (simp add: typed_VALUE_def)
  moreover from w have "plain_VALUE s l3 = Inr (l, (None, X))" by (simp add: plain_VALUE_def)
  ultimately show ?thesis by (simp add: VALUE_def MatchFirst_def)
qed

lemma parse_plain:
  assumes tk: "spec_tokens s = [a, e, opr, X]"
    and a: "a = ''read'' \<or> a = ''delete''" and e: "e = ''key'' \<or> e = ''value''"
    and o: "opr \<in> set operator_keywords"
    and pr: "\<forall>c\<in>set s. white c \<or> printable c"
  shows "parse_query_string B s =
           Inr \<lparr>action = a, element = e, operator = opr, value_type = None, qvalue = PyStr X\<rparr>"
proof -
  from tk a obtain l1 where 1: "ACTION s 0 = Inr (l1, a)"
    and t1: "spec_tokens (drop l1 s) = [e, opr, X]"
    and c1: "drop l1 s = [] \<or> white (hd (drop l1 s))"
    by (rule ACTION_tok)
  from t1 e c1 obtain l2 where 2: "ELEMENT s l1 = Inr (l2, e)"
    and t2: "spec_tokens (drop l2 s) = [opr, X]"
    and c2: "drop l2 s = [] \<or> white (hd (drop l2 s))"
    by (rule ELEMENT_tok)
  from t2 o c2 obtain l3 where 3: "OPERATOR s l2 = Inr (l3, opr)"
    and t3: "spec_tokens (drop l3 s) = [X]"
    by (rule OPERATOR_tok)
  from pr have "\<forall>c\<in>set (drop l3 s). white c \<or> printable c" by (auto dest: in_set_dropD)
  from plain_VALUE_ok [OF t3 this] obtain l4 where "VALUE s l3 = Inr (l4, (None, X))" by blast
  with 1 2 3 show ?thesis by (simp add: parse_query_string_def)
qed

lemma parse_typed:
  assumes tk: "spec_tokens s = a # e # opr # T # ''('' # L # '')'' # rest"
    and a: "a = ''read'' \<or> a = ''delete''" and e: "e = ''key'' \<or> e = ''value''"
    and o: "opr \<in> set operator_keywords"
    and pr: "\<forall>c\<in>set s. white c \<or> printable c"
    and conv: "parse_value_to_type B L T = Inr K"
  shows "parse_query_string B s =
           Inr \<lparr>action = a, element = e, operator = opr, value_type = Some T, qvalue = K\<rparr>"
proof -
  from tk a obtain l1 where 1: "ACTION s 0 = Inr (l1, a)"
    and t1: "spec_tokens (drop l1 s) = e # opr # T # ''('' # L # '')'' # rest"
    and c1: "drop l1 s = [] \<or> white (hd (drop l1 s))"
    by (rule ACTION_tok)
  from t1 e c1 obtain l2 where 2: "ELEMENT s l1 = Inr (l2, e)"
    and t2: "spec_tokens (drop l2 s) = opr # T # ''('' # L # '')'' # rest"
    and c2: "drop l2 s = [] \<or> white (hd (drop l2 s))"
    by (rule ELEMENT_tok)
  from t2 o c2 obtain l3 where 3: "OPERATOR s l2 = Inr (l3, opr)"
    and t3: "spec_tokens (drop l3 s) = T # ''('' # L # '')'' # rest"
    by (rule OPERATOR_tok)
  from pr have "\<forall>c\<in>set (drop l3 s). white c \<or> printable c" by (auto dest: in_set_dropD)
  from typed_VALUE_ok [OF t3 this] obtain l4 where "VALUE s l3 = Inr (l4, (Some T, L))" by blast
  with 1 2 3 conv show ?thesis by (simp add: parse_query_string_def)
qed

text \<open>The tokens of strings written with single blanks.\<close>

lemma toks_white_Cons: "white c \<Longrightarrow> spec_tokens (c # r) = spec_tokens r"
  by (simp add: spec_tokens.simps [of "c # r"] spec_tokens.simps [of r])

lemma toks_word_blank:
  assumes "m \<noteq> []" and "\<forall>c\<in>set m. \<not> white c"
  shows "spec_tokens (m @ CHR '' '' # r) = m # spec_tokens r"
proof -
  have w: "white (CHR '' '')" by (simp add: white_chars_def)
  have "dropWhile white (m @ CHR '' '' # r) = m @ CHR '' '' # r"
    using assms by (cases m) auto
  from toks_step [OF this assms] w
  have "spec_tokens (m @ CHR '' '' # r) = m # spec_tokens (CHR '' '' # r)" by simp
  with w show ?thesis by (simp add: toks_white_Cons)
qed

lemma toks_last_word:
  assumes "m \<noteq> []" and "\<forall>c\<in>set m. \<not> white c"
  shows "spec_tokens m = [m]"
proof -
  have "dropWhile white m = m @ []" using assms by (cases m) auto
  from toks_step [OF this assms] show ?thesis by (simp add: toks_Nil)
qed

lemma printable_not_white: "printable c \<Longrightarrow> \<not> white c"
  using white_not_printable by blast

lemma toks_plain_query:
  assumes "a \<noteq> []" "\<forall>c\<in>set a. \<not> white c" "e \<noteq> []" "\<forall>c\<in>set e. \<not> white c"
    "opr \<noteq> []" "\<forall>c\<in>set opr. \<not> white c" "X \<noteq> []" "\<forall>c\<in>set X. \<not> white c"
  shows "spec_tokens (a @ CHR '' '' # e @ CHR '' '' # opr @ CHR '' '' # X) = [a, e, opr, X]"
  using assms by (simp add: toks_word_blank toks_last_word)

lemma toks_lparen: "spec_tokens (CHR ''('' # CHR '' '' # r) = ''('' # spec_tokens r"
  using toks_word_blank [of "''(''" r] by (simp add: white_chars_def)

lemma toks_rparen: "spec_tokens [CHR '')''] = ['')'']"
  using toks_last_word [of "'')''"] by (simp add: white_chars_def)

lemma toks_typed_query:
  assumes "a \<noteq> []" "\<forall>c\<in>set a. \<not> white c" "e \<noteq> []" "\<forall>c\<in>set e. \<not> white c"
    "opr \<noteq> []" "\<forall>c\<in>set opr. \<not> white c" "T \<noteq> []" "\<forall>c\<in>set T. \<not> white c"
    "L \<noteq> []" "\<forall>c\<in>set L. \<not> white c"
  shows "spec_tokens (a @ CHR '' '' # e @ CHR '' '' # opr @ CHR '' '' # T @ CHR '' '' # ''(''
           @ CHR '' '' # L @ CHR '' '' # '')'')
         = [a, e, opr, T, ''('', L, '')'']"
  using assms by (simp add: toks_word_blank toks_lparen toks_rparen)

lemma query_string_chars:
  assumes "\<forall>c\<in>set X. printable c"
  shows "\<forall>c\<in>set (''delete value contains '' @ X). white c \<or> printable c"
    and "\<forall>c\<in>set (''read key = '' @ X). white c \<or> printable c"
  using assms by (auto simp: white_chars_def printable_def)

lemma toks_delete_value_contains:
  assumes "X \<noteq> []" and "\<forall>c\<in>set X. printable c"
  shows "spec_tokens (''delete value contains '' @ X) = [''delete'', ''value'', ''contains'', X]"
proof -
  from assms(2) have nw: "\<forall>c\<in>set X. \<not> white c" by (auto dest: printable_not_white)
  have "spec_tokens (''delete'' @ CHR '' '' # ''value'' @ CHR '' '' # ''contains'' @ CHR '' '' # X)
        = [''delete'', ''value'', ''contains'', X]"
    by (rule toks_plain_query [OF _ _ _ _ _ _ assms(1) nw]) (simp_all add: white_chars_def)
  then show ?thesis by simp
qed

lemma toks_read_key_eq:
  assumes "X \<noteq> []" and "\<forall>c\<in>set X. printable c"
  shows "spec_tokens (''read key = '' @ X) = [''read'', ''key'', ''='', X]"
proof -
  from assms(2) have nw: "\<forall>c\<in>set X. \<not> white c" by (auto dest: printable_not_white)
  have "spec_tokens (''read'' @ CHR '' '' # ''key'' @ CHR '' '' # ''='' @ CHR '' '' # X)
        = [''read'', ''key'', ''='', X]"
    by (rule toks_plain_query [OF _ _ _ _ _ _ assms(1) nw]) (simp_all add: white_chars_def)
  then show ?thesis by simp
qed

lemma toks_read_key_eq_typed:
  assumes "T \<noteq> []" and "\<forall>c\<in>set T. printable c" and "L \<noteq> []" and "\<forall>c\<in>set L. printable c"
  shows "spec_tokens (''read key = '' @ T @ '' ( '' @ L @ '' )'')
         = [''read'', ''key'', ''='', T, ''('', L, '')'']"
proof -
  from assms have nw: "\<forall>c\<in>set T. \<not> white c" "\<forall>c\<in>set L. \<not> white c"
    by (auto dest: printable_not_white)
  have "spec_tokens (''read'' @ CHR '' '' # ''key'' @ CHR '' '' # ''='' @ CHR '' '' # T
          @ CHR '' '' # ''('' @ CHR '' '' # L @ CHR '' '' # '')'')
        = [''read'', ''key'', ''='', T, ''('', L, '')'']"
    by (rule toks_typed_query [OF _ _ _ _ _ _ assms(1) nw(1) assms(3) nw(2)])
       (simp_all add: white_chars_def)
  then show ?thesis by simp
qed

lemma parse_delete_value_contains:
  assumes "X \<noteq> []" and "\<forall>c\<in>set X. printable c"
  shows "parse_query_string B (''delete value contains '' @ X) =
           Inr \<lparr>action = ''delete'', element = ''value'', operator = ''contains'',
                value_type = None, qvalue = PyStr X\<rparr>"
  by (rule parse_plain [OF toks_delete_value_contains [OF assms]])
     (simp_all add: operator_keywords_def query_string_chars(1) [OF assms(2)])

lemma parse_read_key_eq:
  assumes "X \<noteq> []" and "\<forall>c\<in>set X. printable c"
  shows "parse_query_string B (''read key = '' @ X) =
           Inr \<lparr>action = ''read'', element = ''key'', operator = ''='',
                value_type = None, qvalue = PyStr X\<rparr>"
  by (rule parse_plain [OF toks_read_key_eq [OF assms]])
     (simp_all add: operator_keywords_def query_string_chars(2) [OF assms(2)])

lemma parse_read_key_eq_typed:
  assumes "T \<noteq> []" and "\<forall>c\<in>set T. printable c" and "L \<noteq> []" and "\<forall>c\<in>set L. printable c"
    and "parse_value_to_type B L T = Inr K"
  shows "parse_query_string B (''read key = '' @ T @ '' ( '' @ L @ '' )'') =
           Inr \<lparr>action = ''read'', element = ''key'', operator = ''='',
                value_type = Some T, qvalue = K\<rparr>"
proof -
  have pr: "\<forall>c\<in>set (''read key = '' @ T @ '' ( '' @ L @ '' )''). white c \<or> printable c"
    using assms(2,4) by (auto simp: white_chars_def printable_def)
  show ?thesis
    by (rule parse_typed [OF toks_read_key_eq_typed [OF assms(1-4)] _ _ _ pr assms(5)])
       (simp_all add: operator_keywords_def)
qed

text \<open>The parser on a string, read off its tokens.\<close>

lemma Keyword_Inl: "Keyword m s loc = Inl err \<Longrightarrow> err = ParseException"
  by (auto simp: Keyword_def Let_def split: if_splits)

lemma Keyword_at_token:
  assumes d: "dropWhile white (drop loc s) = t @ r'"
    and r': "r' = [] \<or> white (hd r')"
    and pre: "preParse s loc = 0 \<or> s ! (preParse s loc - 1) \<notin> set identChars"
    and m: "\<forall>c\<in>set m. \<not> white c"
  shows "Keyword m s loc =
           (if kw_match m t then Inr (preParse s loc + length m, m) else Inl ParseException)"
proof (cases "prefix m t")
  case False
  have "\<not> prefix m (t @ r')"
  proof
    assume "prefix m (t @ r')"
    then have "prefix m t \<or> (\<exists>us. m = t @ us \<and> us \<noteq> [] \<and> prefix us r')"
      by (auto simp: prefix_append)
    with False obtain us where "m = t @ us" "us \<noteq> []" "prefix us r'" by blast
    with r' m show False by (cases us; cases r') auto
  qed
  with d have "Keyword m s loc = Inl ParseException"
    using Keyword_no_prefix [of m loc s] by simp
  with False show ?thesis by (simp add: kw_match_def)
next
  case True
  then obtain u where t: "t = m @ u" by (auto simp: prefix_def)
  with d have d': "dropWhile white (drop loc s) = m @ (u @ r')" by simp
  have nth: "u \<noteq> [] \<Longrightarrow> t ! length m = hd u"
    using t by (cases u) (auto simp: nth_append)
  show ?thesis
  proof (cases "kw_match m t")
    case km: True
    have "u @ r' = [] \<or> hd (u @ r') \<notin> set identChars"
    proof (cases "u = []")
      case True
      with r' show ?thesis by (auto simp: white_not_ident)
    next
      case False
      with km t nth show ?thesis by (auto simp: kw_match_def)
    qed
    from Keyword_ok [OF d' this pre] km show ?thesis by simp
  next
    case km: False
    with True t have u: "u \<noteq> []" and id: "t ! length m \<in> set identChars"
      by (auto simp: kw_match_def)
    have "Keyword m s loc = Inl ParseException"
    proof (cases "Keyword m s loc")
      case (Inl err)
      then show ?thesis by (auto dest: Keyword_Inl)
    next
      case (Inr x)
      obtain l x' where x: "x = (l, x')" by (cases x)
      from Keyword_Inr(3) [OF Inr [unfolded x]] d'
      have "drop l s = u @ r'" by simp
      with Keyword_Inr(4) [OF Inr [unfolded x]] u nth id show ?thesis by simp
    qed
    with km show ?thesis by simp
  qed
qed

lemma OPERATOR_at_token:
  assumes d: "dropWhile white (drop loc s) = t @ r'"
    and r': "r' = [] \<or> white (hd r')"
    and pre: "preParse s loc = 0 \<or> s ! (preParse s loc - 1) \<notin> set identChars"
  shows "OPERATOR s loc =
           (case chosen_operator t of
              None \<Rightarrow> Inl ParseException
            | Some m \<Rightarrow> Inr (preParse s loc + length m, m))"
proof -
  have k: "Keyword m s loc =
      (if kw_match m t then Inr (preParse s loc + length m, m) else Inl ParseException)"
    if "\<forall>c\<in>set m. \<not> white c" for m
    using d r' pre that by (rule Keyword_at_token)
  have 1: "Keyword ''<='' s loc =
      (if kw_match ''<='' t then Inr (preParse s loc + length ''<='', ''<='') else Inl ParseException)"
    by (rule k) (simp add: white_chars_def)
  have 2: "Keyword ''>='' s loc =
      (if kw_match ''>='' t then Inr (preParse s loc + length ''>='', ''>='') else Inl ParseException)"
    by (rule k) (simp add: white_chars_def)
  have 3: "Keyword ''<'' s loc =
      (if kw_match ''<'' t then Inr (preParse s loc + length ''<'', ''<'') else Inl ParseException)"
    by (rule k) (simp add: white_chars_def)
  have 4: "Keyword ''>'' s loc =
      (if kw_match ''>'' t then Inr (preParse s loc + length ''>'', ''>'') else Inl ParseException)"
    by (rule k) (simp add: white_chars_def)
  have 5: "Keyword ''='' s loc =
      (if kw_match ''='' t then Inr (preParse s loc + length ''='', ''='') else Inl ParseException)"
    by (rule k) (simp add: white_chars_def)
  have 6: "Keyword ''contains'' s loc =
      (if kw_match ''contains'' t then Inr (preParse s loc + length ''contains'', ''contains'')
       else Inl ParseException)"
    by (rule k) (simp add: white_chars_def)
  show ?thesis
    unfolding OPERATOR_def MatchFirst_def chosen_operator_def operator_keywords_def
    by (simp only: 1 2 3 4 5 6 find.simps split: if_splits) simp
qed


lemma Word_printables_iff:
  "(\<exists>x. Word_printables s loc = Inr x) \<longleftrightarrow>
   dropWhile white (drop loc s) \<noteq> [] \<and> printable (hd (dropWhile white (drop loc s)))"
proof -
  define r where "r = dropWhile white (drop loc s)"
  have t: "takeWhile printable r \<noteq> [] \<longleftrightarrow> r \<noteq> [] \<and> printable (hd r)"
    by (cases r) auto
  have "drop (preParse s loc) s = r" by (simp only: drop_preParse r_def)
  then have "(\<exists>x. Word_printables s loc = Inr x) \<longleftrightarrow> takeWhile printable r \<noteq> []"
    by (simp only: Word_printables_def Let_def) (simp del: takeWhile_eq_Nil_iff)
  with t show ?thesis by (simp only: r_def)
qed

lemma VALUE_iff:
  "(\<exists>x. VALUE s loc = Inr x) \<longleftrightarrow> (\<exists>x. Word_printables s loc = Inr x)"
proof
  assume "\<exists>x. VALUE s loc = Inr x"
  then show "\<exists>x. Word_printables s loc = Inr x"
    by (cases "Word_printables s loc")
       (auto simp: VALUE_def MatchFirst_def typed_VALUE_def plain_VALUE_def)
next
  assume "\<exists>x. Word_printables s loc = Inr x"
  then obtain l v where "Word_printables s loc = Inr (l, v)" by auto
  then have "plain_VALUE s loc = Inr (l, (None, v))" by (simp add: plain_VALUE_def)
  then show "\<exists>x. VALUE s loc = Inr x"
    by (cases "typed_VALUE s loc") (auto simp: VALUE_def MatchFirst_def)
qed

lemma toks_hd:
  assumes "spec_tokens r = rest"
  shows "(dropWhile white r \<noteq> [] \<and> printable (hd (dropWhile white r)))
         \<longleftrightarrow> (case rest of [] \<Rightarrow> False | v # vs \<Rightarrow> printable (hd v))"
proof (cases "dropWhile white r = []")
  case True
  with assms show ?thesis by (simp add: toks_Nil)
next
  case False
  then obtain c r0 where cr: "dropWhile white r = c # r0" by (cases "dropWhile white r") auto
  then have nw: "\<not> white c" by (rule dropWhile_white_Cons)
  have "spec_tokens r = takeWhile (\<lambda>c. \<not> white c) (c # r0)
          # spec_tokens (dropWhile (\<lambda>c. \<not> white c) (c # r0))"
    using cr by (subst spec_tokens.simps) (simp add: Let_def)
  with assms nw cr show ?thesis by auto
qed

lemma value_start:
  assumes d: "dropWhile white (drop l2 s) = t3 @ r'"
    and r': "r' = [] \<or> white (hd r')"
    and rest: "spec_tokens r' = rest"
    and t3: "\<forall>c\<in>set t3. \<not> white c"
    and m: "prefix m t3"
  shows "(dropWhile white (drop (preParse s l2 + length m) s) \<noteq> []
            \<and> printable (hd (dropWhile white (drop (preParse s l2 + length m) s))))
         \<longleftrightarrow> value_follows m t3 rest"
proof -
  from m obtain u where u: "t3 = m @ u" by (auto simp: prefix_def)
  from d have "drop (preParse s l2) s = m @ (u @ r')" by (simp add: drop_preParse u)
  then have dr: "drop (preParse s l2 + length m) s = u @ r'" by (rule drop_app_drop)
  show ?thesis
  proof (cases "u = []")
    case True
    with u have "t3 = m" by simp
    with dr True toks_hd [OF rest] show ?thesis by (simp add: value_follows_def)
  next
    case False
    then obtain c u' where cu: "u = c # u'" by (cases u) auto
    with t3 u have "\<not> white c" by simp
    moreover from cu u have "t3 ! length m = c" by (simp add: nth_append)
    moreover from False u have "t3 \<noteq> m" by simp
    ultimately show ?thesis using dr cu by (simp add: value_follows_def)
  qed
qed

lemma parse_well_begun:
  assumes "parse_query_string B s = Inr q"
  shows "well_begun (spec_tokens s)"
proof -
  from assms obtain l2 l3 l4 vt v where
    o: "OPERATOR s l2 = Inr (l3, operator q)" and v: "VALUE s l3 = Inr (l4, (vt, v))"
    and t12: "spec_tokens s = action q # element q # spec_tokens (drop l2 s)"
    by (rule parse_positions)
  from parse_fields [OF assms] have ae: "action q = ''read'' \<or> action q = ''delete''"
    "element q = ''key'' \<or> element q = ''value''" by simp_all
  from OPERATOR_Keyword [OF o] have ko: "Keyword (operator q) s l2 = Inr (l3, operator q)"
    by simp
  then have "dropWhile white (drop l2 s) \<noteq> []"
    using Keyword_Inr(3) [OF ko] OPERATOR_result [OF o] by auto
  then have "spec_tokens (drop l2 s) \<noteq> []" by (rule toks_not_Nil)
  then obtain t3 rest where t3: "spec_tokens (drop l2 s) = t3 # rest"
    by (cases "spec_tokens (drop l2 s)") auto
  then obtain r' where d: "dropWhile white (drop l2 s) = t3 @ r'"
    and nw: "\<forall>c\<in>set t3. \<not> white c"
    and r': "r' = [] \<or> white (hd r')" and rest: "spec_tokens r' = rest"
    by (rule toks_ConsD)
  from OPERATOR_at_token [OF d r' Keyword_Inr(5) [OF ko]] o
  have ch: "chosen_operator t3 = Some (operator q)"
    and l3: "l3 = preParse s l2 + length (operator q)"
    by (auto split: option.splits)
  then have "kw_match (operator q) t3"
    by (auto simp: chosen_operator_def find_Some_iff)
  then have pm: "prefix (operator q) t3" by (simp add: kw_match_def)
  from v have "\<exists>x. Word_printables s l3 = Inr x" using VALUE_iff by blast
  then have "value_follows (operator q) t3 rest"
    unfolding Word_printables_iff l3 value_start [OF d r' rest nw pm] .
  with t12 t3 ae ch show ?thesis by (simp add: well_begun_def)
qed

lemma toks_rest:
  assumes "\<forall>c\<in>set w. \<not> white c" and "r' = [] \<or> white (hd r')"
  shows "spec_tokens (drop n w @ r') =
           (if drop n w = [] then spec_tokens r' else drop n w # spec_tokens r')"
proof (cases "drop n w = []")
  case True
  then show ?thesis by simp
next
  case False
  then obtain c u where cu: "drop n w = c # u" by (cases "drop n w") auto
  have "set (drop n w) \<subseteq> set w" by (rule set_drop_subset)
  with assms(1) have nw: "\<forall>c\<in>set (drop n w). \<not> white c" by blast
  with cu have "\<not> white c" by simp
  with cu have "dropWhile white (drop n w @ r') = drop n w @ r'" by simp
  from this False nw assms(2) have "spec_tokens (drop n w @ r') = drop n w # spec_tokens r'"
    by (rule toks_step)
  with False show ?thesis by simp
qed

lemma takeWhile_printable_token:
  assumes "r' = [] \<or> white (hd r')"
  shows "takeWhile printable (w @ r') = takeWhile printable w"
proof (cases "\<forall>c\<in>set w. printable c")
  case True
  then have a: "takeWhile printable w = w" by simp
  from True have b: "takeWhile printable (w @ r') = w @ takeWhile printable r'"
    by (simp add: takeWhile_append2)
  from assms have c: "takeWhile printable r' = []"
    by (cases r') (auto simp: white_not_printable)
  show ?thesis by (simp only: a b c append_Nil2)
next
  case False
  then show ?thesis by (auto simp: takeWhile_append1)
qed

lemma takeWhile_all_iff: "takeWhile P w = w \<longleftrightarrow> drop (length (takeWhile P w)) w = []"
proof -
  have "drop (length (takeWhile P w)) w = dropWhile P w" by (simp only: dropWhile_eq_drop)
  moreover have "takeWhile P w = w \<longleftrightarrow> dropWhile P w = []" by simp
  ultimately show ?thesis by (simp only:)
qed

lemma Word_stream:
  assumes "spec_tokens (drop loc s) = ts"
  shows "case word_token ts of
           None \<Rightarrow> Word_printables s loc = Inl ParseException
         | Some (t, ts') \<Rightarrow>
             Word_printables s loc = Inr (preParse s loc + length t, t)
             \<and> spec_tokens (drop (preParse s loc + length t) s) = ts'"
proof (cases ts)
  case Nil
  with assms have "dropWhile white (drop loc s) = []" using toks_not_Nil by blast
  then have "drop (preParse s loc) s = []" by (simp only: drop_preParse)
  then have "Word_printables s loc = Inl ParseException"
    by (simp add: Word_printables_def Let_def)
  with Nil show ?thesis by (simp add: word_token_def)
next
  case (Cons w ws)
  with assms have "spec_tokens (drop loc s) = w # ws" by simp
  then obtain r' where d: "dropWhile white (drop loc s) = w @ r'"
    and nw: "\<forall>c\<in>set w. \<not> white c"
    and r': "r' = [] \<or> white (hd r')" and rest: "spec_tokens r' = ws"
    by (rule toks_ConsD)
  let ?p = "preParse s loc"
  let ?t = "takeWhile printable w"
  from d have dp: "drop ?p s = w @ r'" by (simp only: drop_preParse)
  have tw: "takeWhile printable (drop ?p s) = ?t"
    unfolding dp using r' by (rule takeWhile_printable_token)
  show ?thesis
  proof (cases "?t = []")
    case True
    with tw have "Word_printables s loc = Inl ParseException"
      by (simp only: Word_printables_def Let_def) simp
    with True Cons show ?thesis by (simp add: word_token_def del: takeWhile_eq_Nil_iff)
  next
    case False
    with tw have 1: "Word_printables s loc = Inr (?p + length ?t, ?t)"
      by (simp only: Word_printables_def Let_def) simp
    have "length ?t \<le> length w" by (rule length_takeWhile_le)
    then have "drop (?p + length ?t) s = drop (length ?t) w @ r'"
      using dp by (metis add.commute drop_append drop_drop diff_is_0_eq drop0)
    then have "spec_tokens (drop (?p + length ?t) s) =
        (if drop (length ?t) w = [] then ws else drop (length ?t) w # ws)"
      using toks_rest [OF nw r', of "length ?t"] rest by simp
    then have 2: "spec_tokens (drop (?p + length ?t) s) =
        (if ?t = w then ws else drop (length ?t) w # ws)"
      using takeWhile_all_iff [of printable w] by simp
    from False Cons 1 2 show ?thesis
      by (simp add: word_token_def Let_def del: takeWhile_eq_Nil_iff)
  qed
qed

lemma Literal_stream:
  assumes "spec_tokens (drop loc s) = ts" and "m \<noteq> []" and "\<forall>c\<in>set m. \<not> white c"
  shows "case literal_token m ts of
           None \<Rightarrow> Literal m s loc = Inl ParseException
         | Some ts' \<Rightarrow>
             Literal m s loc = Inr (preParse s loc + length m, m)
             \<and> spec_tokens (drop (preParse s loc + length m) s) = ts'"
proof (cases ts)
  case Nil
  with assms have "dropWhile white (drop loc s) = []" using toks_not_Nil by blast
  then have "drop (preParse s loc) s = []" by (simp only: drop_preParse)
  with assms(2) have "Literal m s loc = Inl ParseException"
    by (auto simp: Literal_def Let_def)
  with Nil show ?thesis by (simp add: literal_token_def)
next
  case (Cons w ws)
  with assms have "spec_tokens (drop loc s) = w # ws" by simp
  then obtain r' where d: "dropWhile white (drop loc s) = w @ r'"
    and nw: "\<forall>c\<in>set w. \<not> white c"
    and r': "r' = [] \<or> white (hd r')" and rest: "spec_tokens r' = ws"
    by (rule toks_ConsD)
  let ?p = "preParse s loc"
  from d have dp: "drop ?p s = w @ r'" by (simp only: drop_preParse)
  show ?thesis
  proof (cases "prefix m w")
    case True
    then obtain u where u: "w = m @ u" by (auto simp: prefix_def)
    with dp have "take (length m) (drop ?p s) = m" by simp
    then have 1: "Literal m s loc = Inr (?p + length m, m)"
      by (simp only: Literal_def Let_def) simp
    from True have "length m \<le> length w" by (rule prefix_length_le)
    then have "drop (?p + length m) s = drop (length m) w @ r'"
      using dp by (metis add.commute drop_append drop_drop diff_is_0_eq drop0)
    then have "spec_tokens (drop (?p + length m) s) =
        (if drop (length m) w = [] then ws else drop (length m) w # ws)"
      using toks_rest [OF nw r', of "length m"] rest by simp
    moreover have "drop (length m) w = [] \<longleftrightarrow> w = m" using u by auto
    ultimately have 2: "spec_tokens (drop (?p + length m) s) =
        (if w = m then ws else drop (length m) w # ws)" by simp
    from True Cons 1 2 show ?thesis by (simp add: literal_token_def)
  next
    case False
    have "take (length m) (w @ r') \<noteq> m"
    proof
      assume e: "take (length m) (w @ r') = m"
      then have pm: "prefix m (w @ r')" by (metis take_is_prefix)
      with False have "\<not> length m \<le> length w"
        by (metis prefix_length_prefix prefix_order.dual_order.refl prefixI append_prefixD
            prefix_append)
      then have lw: "length w < length m" by simp
      from pm obtain x where x: "w @ r' = m @ x" by (auto simp: prefix_def)
      with lw have "r' \<noteq> []" by (metis append_Nil2 length_append less_irrefl_nat
            trans_less_add1)
      with r' have wh: "white (hd r')" by simp
      from x lw have "m ! length w = (w @ r') ! length w" by (simp add: nth_append)
      also have "\<dots> = hd r'" using \<open>r' \<noteq> []\<close> by (simp add: nth_append hd_conv_nth)
      finally have "hd r' \<in> set m" using lw by (metis nth_mem)
      with assms(3) wh show False by blast
    qed
    with dp have "Literal m s loc = Inl ParseException"
      by (simp only: Literal_def Let_def) simp
    with False Cons show ?thesis by (simp add: literal_token_def)
  qed
qed

lemma typed_VALUE_stream:
  assumes "spec_tokens (drop loc s) = ts"
  shows "case typed_value ts of
           None \<Rightarrow> typed_VALUE s loc = Inl ParseException
         | Some (T, L) \<Rightarrow> (\<exists>l. typed_VALUE s loc = Inr (l, (Some T, L)))"
proof (cases "word_token ts")
  case None
  with Word_stream [OF assms] show ?thesis by (simp add: typed_value_def typed_VALUE_def)
next
  case (Some a)
  then obtain T ts1 where w1: "word_token ts = Some (T, ts1)" by (cases a) auto
  let ?l1 = "preParse s loc + length T"
  from Word_stream [OF assms] w1 have p1: "Word_printables s loc = Inr (?l1, T)"
    and t1: "spec_tokens (drop ?l1 s) = ts1" by simp_all
  have lp: "''('' \<noteq> []" "\<forall>c\<in>set ''(''. \<not> white c"
    "'')'' \<noteq> []" "\<forall>c\<in>set '')''. \<not> white c"
    by (simp_all add: white_chars_def)
  show ?thesis
  proof (cases "literal_token ''('' ts1")
    case None
    with Literal_stream [OF t1 lp(1,2)] p1 w1 show ?thesis
      by (simp add: typed_value_def typed_VALUE_def)
  next
    case (Some ts2)
    let ?l2 = "preParse s ?l1 + length ''(''"
    from Literal_stream [OF t1 lp(1,2)] Some
    have p2: "Literal ''('' s ?l1 = Inr (?l2, ''('')"
      and t2: "spec_tokens (drop ?l2 s) = ts2" by simp_all
    show ?thesis
    proof (cases "word_token ts2")
      case None
      with Word_stream [OF t2] p1 p2 w1 Some show ?thesis
        by (simp add: typed_value_def typed_VALUE_def)
    next
      case (Some b)
      then obtain L ts3 where w3: "word_token ts2 = Some (L, ts3)" by (cases b) auto
      let ?l3 = "preParse s ?l2 + length L"
      from Word_stream [OF t2] w3 have p3: "Word_printables s ?l2 = Inr (?l3, L)"
        and t3: "spec_tokens (drop ?l3 s) = ts3" by simp_all
      show ?thesis
      proof (cases "literal_token '')'' ts3")
        case None
        with Literal_stream [OF t3 lp(3,4)] p1 p2 p3 w1 w3 \<open>literal_token ''('' ts1 = Some ts2\<close>
        show ?thesis by (simp add: typed_value_def typed_VALUE_def)
      next
        case (Some ts4)
        with Literal_stream [OF t3 lp(3,4)] p1 p2 p3 w1 w3 \<open>literal_token ''('' ts1 = Some ts2\<close>
        show ?thesis by (simp add: typed_value_def typed_VALUE_def)
      qed
    qed
  qed
qed

lemma VALUE_stream:
  assumes "spec_tokens (drop loc s) = ts"
  shows "case typed_value ts of
           Some (T, L) \<Rightarrow> (\<exists>l. VALUE s loc = Inr (l, (Some T, L)))
         | None \<Rightarrow>
             (case word_token ts of
                None \<Rightarrow> VALUE s loc = Inl ParseException
              | Some (v, ts') \<Rightarrow> (\<exists>l. VALUE s loc = Inr (l, (None, v))))"
  using typed_VALUE_stream [OF assms] Word_stream [OF assms]
  by (auto simp: VALUE_def MatchFirst_def plain_VALUE_def split: option.splits)

lemma well_begun_value_tokens:
  assumes "well_begun (spec_tokens s)"
  obtains l1 a l2 e l3 opr where
    "ACTION s 0 = Inr (l1, a)" "ELEMENT s l1 = Inr (l2, e)" "OPERATOR s l2 = Inr (l3, opr)"
    "spec_tokens (drop l3 s) = value_tokens (spec_tokens s)" "\<exists>x. VALUE s l3 = Inr x"
proof -
  from assms obtain a e t3 rest m where tk: "spec_tokens s = a # e # t3 # rest"
    and a: "a = ''read'' \<or> a = ''delete''" and e: "e = ''key'' \<or> e = ''value''"
    and ch: "chosen_operator t3 = Some m" and vf: "value_follows m t3 rest"
    by (auto simp: well_begun_def split: list.splits option.splits)
  from tk a obtain l1 where 1: "ACTION s 0 = Inr (l1, a)"
    and t1: "spec_tokens (drop l1 s) = e # t3 # rest"
    and c1: "drop l1 s = [] \<or> white (hd (drop l1 s))"
    by (rule ACTION_tok)
  from t1 e c1 obtain l2 where 2: "ELEMENT s l1 = Inr (l2, e)"
    and t2: "spec_tokens (drop l2 s) = t3 # rest"
    and c2: "drop l2 s = [] \<or> white (hd (drop l2 s))"
    by (rule ELEMENT_tok)
  from t2 obtain r' where d: "dropWhile white (drop l2 s) = t3 @ r'"
    and nw: "\<forall>c\<in>set t3. \<not> white c"
    and r': "r' = [] \<or> white (hd r')" and rest: "spec_tokens r' = rest"
    by (rule toks_ConsD)
  from t2 have ne: "drop l2 s \<noteq> []" by (rule toks_drop_nonempty)
  with c2 have "l2 = 0 \<or> white (hd (drop l2 s))" by blast
  then have pre: "preParse s l2 = 0 \<or> s ! (preParse s l2 - 1) \<notin> set identChars"
    using ne by (rule pre_ok)
  let ?l3 = "preParse s l2 + length m"
  from OPERATOR_at_token [OF d r' pre] ch have 3: "OPERATOR s l2 = Inr (?l3, m)" by simp
  from ch have "kw_match m t3" by (auto simp: chosen_operator_def find_Some_iff)
  then have pm: "prefix m t3" by (simp add: kw_match_def)
  then obtain u where u: "t3 = m @ u" by (auto simp: prefix_def)
  from d have dp: "drop (preParse s l2) s = t3 @ r'" by (simp only: drop_preParse)
  from pm have "length m \<le> length t3" by (rule prefix_length_le)
  then have "drop ?l3 s = drop (length m) t3 @ r'"
    using dp by (metis add.commute drop_append drop_drop diff_is_0_eq drop0)
  then have "spec_tokens (drop ?l3 s) =
      (if drop (length m) t3 = [] then rest else drop (length m) t3 # rest)"
    using toks_rest [OF nw r', of "length m"] rest by simp
  moreover have "drop (length m) t3 = [] \<longleftrightarrow> t3 = m" using u by auto
  ultimately have 4: "spec_tokens (drop ?l3 s) = value_tokens (spec_tokens s)"
    using tk ch by (simp add: value_tokens_def)
  from vf have "\<exists>x. Word_printables s ?l3 = Inr x"
    unfolding Word_printables_iff value_start [OF d r' rest nw pm] .
  then have 5: "\<exists>x. VALUE s ?l3 = Inr x" by (simp only: VALUE_iff)
  from 1 2 3 4 5 show ?thesis by (rule that)
qed

lemma well_begun_parse_fails_iff:
  assumes "well_begun (spec_tokens s)"
  shows "parse_query_string B s = Inl err \<longleftrightarrow>
         (\<exists>T L. typed_value (value_tokens (spec_tokens s)) = Some (T, L)
                \<and> parse_value_to_type B L T = Inl err)"
proof -
  from assms obtain l1 a l2 e l3 opr where p:
    "ACTION s 0 = Inr (l1, a)" "ELEMENT s l1 = Inr (l2, e)" "OPERATOR s l2 = Inr (l3, opr)"
    and t: "spec_tokens (drop l3 s) = value_tokens (spec_tokens s)"
    and w: "\<exists>x. VALUE s l3 = Inr x"
    by (rule well_begun_value_tokens)
  show ?thesis
  proof (cases "typed_value (value_tokens (spec_tokens s))")
    case None
    with VALUE_stream [OF t] w obtain l v where "VALUE s l3 = Inr (l, (None, v))"
      by (auto split: option.splits)
    with p None show ?thesis by (simp add: parse_query_string_def)
  next
    case (Some x)
    then obtain T L where tl: "typed_value (value_tokens (spec_tokens s)) = Some (T, L)"
      by (cases x) auto
    with VALUE_stream [OF t] obtain l where "VALUE s l3 = Inr (l, (Some T, L))" by auto
    with p tl show ?thesis
      by (cases "parse_value_to_type B L T") (simp_all add: parse_query_string_def)
  qed
qed

text \<open>The two queries of the claims below, for any string that parses to them.\<close>

lemma delete_value_contains_parsed:
  assumes "wf_store d"
    and "parse_query_string B s =
           Inr \<lparr>action = ''delete'', element = ''value'', operator = ''contains'',
                value_type = vt, qvalue = X\<rparr>"
  shows "query B s d =
           (Response True None (filter (\<lambda>kv. operator_contains (snd kv) X = Inr True) d),
            filter (\<lambda>kv. operator_contains (snd kv) X \<noteq> Inr True) d)
       \<and> query B s (filter (\<lambda>kv. operator_contains (snd kv) X \<noteq> Inr True) d) =
           (Response True None [], filter (\<lambda>kv. operator_contains (snd kv) X \<noteq> Inr True) d)"
proof -
  let ?q = "\<lparr>action = ''delete'', element = ''value'', operator = ''contains'',
             value_type = vt, qvalue = X\<rparr>"
  let ?d' = "filter (\<lambda>kv. operator_contains (snd kv) X \<noteq> Inr True) d"
  have m: "matches_entry snd ?q operators = (\<lambda>kv. operator_contains (snd kv) X = Inr True)"
    by (rule ext) (simp add: matches_contains)
  have wf': "wf_store ?d'" using assms(1) by (rule wf_store_filter)
  have 1: "query B s d = (Response True None (filter (\<lambda>kv. operator_contains (snd kv) X = Inr True) d), ?d')"
    using query_delete_value [OF assms(1) assms(2)] by (simp add: m)
  have 2: "query B s ?d' = (Response True None [], ?d')"
    using query_delete_value [OF wf' assms(2)] by (simp add: m)
  from 1 2 show ?thesis by simp
qed

lemma key_equality_query_parsed:
  assumes "wf_store d"
    and "parse_query_string B s =
           Inr \<lparr>action = ''read'', element = ''key'', operator = ''='',
                value_type = vt, qvalue = K\<rparr>"
  shows "case dict_find d K of
           Some v \<Rightarrow> query B s d = read K d \<and> read K d = (Response True None [(K, v)], d)
         | None \<Rightarrow> query B s d = (Response True None [], d)"
proof (cases "dict_find d K")
  case None
  with assms(2) show ?thesis
    by (simp add: query_def query_actions_def query_elements_def execute_query_by_key_def
        dict_getitem_def)
next
  case (Some v)
  with assms(1) have "hashable K" by (rule dict_find_Some_hashable)
  with Some assms(2) show ?thesis
    by (simp add: query_def query_actions_def query_elements_def execute_query_by_key_def
        dict_getitem_def call_action_def read_def)
qed

section \<open>The claims about single entries\<close>

text \<open>
  C1 (the code departs from it). A request whose type is none of 0, 1, 2, 3 should get
  the failure response "Request type does not exist.", and no exception should leave the
  dispatch. The table holds that response under the key 4, but the default handed to
  \<open>get\<close> is the integer 4, not the entry: for the type 5 the call raises \<open>TypeError\<close>,
  which nothing catches.
\<close>

theorem C1_unknown_type_raises:
  "listen_step B \<lparr>request_type = 5, req_key = k, req_value = v, req_query = q\<rparr> d = Inl TypeError"
  by (simp add: listen_step_def request_types_def dict_get_def)

text \<open>
  C3 (the code departs from it). A snapshot file that cannot be read or unpickled should
  leave the store empty, with no error for the caller. When \<open>pickle.loads\<close> raises
  \<open>UnpicklingError\<close> on the bytes read, \<open>_init_db\<close> raises it too: its handler
  catches \<open>IOError\<close> only.
\<close>

theorem C3_corrupted_snapshot_raises:
  "init_db (Inr bytes) (\<lambda>b. Inl UnpicklingError) = Inl UnpicklingError"
  by (simp add: init_db_def)

text \<open>
  C4 (as stated, it fails). The claim: for every key \<open>k\<close> and value \<open>v\<close>, \<open>add(k, v)\<close>
  and then \<open>read(k)\<close> returns the success response whose data is \<open>[(k, v)]\<close>. A NaN is
  equal to no value, itself included, and the dictionary finds a key through the same
  object or an equal one only. The key of a read request is an object of its own, not
  the one that the add request stored: after \<open>add(nan, 5)\<close> on the empty store,
  \<open>read(nan)\<close> returns the failure response "Entry does not exist.".
\<close>

theorem C4_nan_key_counterexample:
  "hashable (PyNaN 1)
   \<and> add (PyNaN 1) (PyInt 5) [] = (Response True None [(PyNaN 1, PyInt 5)], [(PyNaN 1, PyInt 5)])
   \<and> read (PyNaN 2) [(PyNaN 1, PyInt 5)] =
       (Response False (Some ''Entry does not exist.'') [], [(PyNaN 1, PyInt 5)])"
  by code_simp

text \<open>
  C4, amended. For every hashable key \<open>k\<close>, every key \<open>k'\<close> with \<open>k == k'\<close> and every
  value \<open>v\<close>: \<open>add(k, v)\<close> returns the success response whose data is \<open>[(k, v)]\<close>, and
  \<open>read(k')\<close> on the store it leaves returns the success response whose data is
  \<open>[(k', v)]\<close>.
\<close>

theorem C4_add_then_read_equal_key:
  assumes "hashable k" and "py_eq k k'"
  shows "fst (add k v d) = Response True None [(k, v)]
       \<and> fst (read k' (snd (add k v d))) = Response True None [(k', v)]"
proof -
  from assms(2) have e: "same_or_eq k k'" by (simp add: same_or_eq_def)
  from e assms(1) have h: "hashable k'" by (rule same_or_eq_hashable)
  from assms(1) h e show ?thesis
    by (simp add: add_def read_def dict_setitem_def dict_getitem_def dict_find_update_same
        dict_find_update_eq)
qed

theorem C4_add_then_read_equal_key_witness:
  "hashable (PyInt 1) \<and> py_eq (PyInt 1) (PyFloat 1)
   \<and> fst (add (PyInt 1) (PyInt 123) [(PyStr ''a'', PyNone)]) = Response True None [(PyInt 1, PyInt 123)]
   \<and> fst (read (PyFloat 1) (snd (add (PyInt 1) (PyInt 123) [(PyStr ''a'', PyNone)])))
       = Response True None [(PyFloat 1, PyInt 123)]"
proof -
  have h1: "hashable (PyInt 1)" by simp
  have h2: "py_eq (PyInt 1) (PyFloat 1)" by simp
  show ?thesis
    using h1 h2 C4_add_then_read_equal_key [OF h1 h2, of "PyInt 123" "[(PyStr ''a'', PyNone)]"]
    by simp
qed

text \<open>
  C7. For every key \<open>k\<close> that is not in the store (no stored key equals it),
  \<open>read(k)\<close> returns the failure response "Entry does not exist." and \<open>delete(k)\<close>
  the failure response "Entry could not be deleted.", both with empty data; the store
  stays as it was.
\<close>

theorem C7_absent_key_fails:
  assumes "dict_find d k = None"
  shows "read k d = (Response False (Some ''Entry does not exist.'') [], d)
       \<and> delete k d = (Response False (Some ''Entry could not be deleted.'') [], d)"
  using assms
  by (simp add: read_def delete_def dict_getitem_def dict_delitem_def send_error_def)

theorem C7_absent_key_fails_witness:
  "dict_find [(PyInt 1, PyInt 123)] (PyInt 2) = None
   \<and> read (PyInt 2) [(PyInt 1, PyInt 123)]
       = (Response False (Some ''Entry does not exist.'') [], [(PyInt 1, PyInt 123)])
   \<and> delete (PyInt 2) [(PyInt 1, PyInt 123)]
       = (Response False (Some ''Entry could not be deleted.'') [], [(PyInt 1, PyInt 123)])"
proof -
  have h: "dict_find [(PyInt 1, PyInt 123)] (PyInt 2) = None"
    by (simp add: same_or_eq_def)
  show ?thesis using h C7_absent_key_fails [OF h] by (simp add: same_or_eq_def)
qed

text \<open>
  C10. For every key \<open>k\<close> that is in the store, \<open>delete(k)\<close> returns
  \<open>Response(success=True, message=None, data=[])\<close>: the removed pair is not in the
  data of the response.
\<close>

theorem C10_delete_returns_no_data:
  assumes "wf_store d" and "dict_find d k = Some v"
  shows "fst (delete k d) = Response True None []"
  using assms dict_find_Some_hashable [OF assms]
  by (simp add: delete_def dict_delitem_def)

theorem C10_delete_returns_no_data_witness:
  "wf_store [(PyInt 1, PyInt 123)] \<and> dict_find [(PyInt 1, PyInt 123)] (PyInt 1) = Some (PyInt 123)
   \<and> fst (delete (PyInt 1) [(PyInt 1, PyInt 123)]) = Response True None []"
proof -
  have h1: "wf_store [(PyInt 1, PyInt 123)]" by simp
  have h2: "dict_find [(PyInt 1, PyInt 123)] (PyInt 1) = Some (PyInt 123)"
    by (simp add: same_or_eq_def)
  show ?thesis using h1 h2 C10_delete_returns_no_data [OF h1 h2] by (simp add: same_or_eq_def)
qed

section \<open>The claims about queries\<close>

text \<open>
  C9. On every store, a well-formed query whose action is \<open>read\<close> (by key or by value,
  with any operator) leaves the store as it was.
\<close>

theorem C9_read_query_keeps_store:
  assumes "parse_query_string B s = Inr q" and "action q = ''read''"
  shows "snd (query B s d) = d"
proof -
  from parse_fields [OF assms(1)] have "element q = ''key'' \<or> element q = ''value''" by simp
  then show ?thesis
  proof
    assume k: "element q = ''key''"
    show ?thesis
    proof (cases "operator q = ''=''")
      case True
      with assms k show ?thesis
        by (simp add: query_def query_actions_def query_elements_def execute_query_by_key_def
            call_action_def split: sum.splits)
    next
      case False
      with query_read_key_scan [OF assms k] show ?thesis by simp
    qed
  next
    assume "element q = ''value''"
    with query_read_value [OF assms] show ?thesis by simp
  qed
qed

theorem C9_read_query_keeps_store_witness:
  "parse_query_string no_float ''read value contains Mihai'' =
       Inr \<lparr>action = ''read'', element = ''value'', operator = ''contains'',
            value_type = None, qvalue = PyStr ''Mihai''\<rparr>
   \<and> action \<lparr>action = ''read'', element = ''value'', operator = ''contains'',
            value_type = None, qvalue = PyStr ''Mihai''\<rparr> = ''read''
   \<and> snd (query no_float ''read value contains Mihai'' example_store) = example_store"
proof -
  have h1: "parse_query_string no_float ''read value contains Mihai'' =
       Inr \<lparr>action = ''read'', element = ''value'', operator = ''contains'',
            value_type = None, qvalue = PyStr ''Mihai''\<rparr>"
    by code_simp
  have h2: "action \<lparr>action = ''read'', element = ''value'', operator = ''contains'',
            value_type = None, qvalue = PyStr ''Mihai''\<rparr> = ''read''"
    by simp
  show ?thesis using h1 h2 C9_read_query_keeps_store [OF h1 h2, of example_store] by (simp add: same_or_eq_def)
qed

text \<open>
  C6. In every scan query (by value, or by key with an operator other than \<open>=\<close>), an
  entry whose operand has a kind incompatible with the kind of the query value is
  skipped: the query returns success, the entry is not among the matches, and it stays
  in the store.
\<close>

theorem C6_incompatible_kind_is_skipped:
  assumes "wf_store d" and "parse_query_string B s = Inr q"
    and "element q = ''value'' \<or> operator q \<noteq> ''=''"
    and "kv \<in> set d"
    and "incompatible (operator q) (kind_of (operand q kv)) (kind_of (qvalue q))"
  shows "success (fst (query B s d)) \<and> message (fst (query B s d)) = None
       \<and> kv \<notin> set (data (fst (query B s d)))
       \<and> kv \<in> set (snd (query B s d))"
proof -
  have n: "\<not> matches_entry (operand q) q operators kv"
    using assms(5) by (rule incompatible_no_match)
  from query_scan [OF assms(1-3)] n assms(4) show ?thesis
    by (auto simp: Response_def)
qed

theorem C6_incompatible_kind_is_skipped_witness:
  "wf_store example_store
   \<and> parse_query_string no_float ''delete key > int ( 5 )'' =
       Inr \<lparr>action = ''delete'', element = ''key'', operator = ''>'',
            value_type = Some ''int'', qvalue = PyInt 5\<rparr>
   \<and> (PyStr ''1a2b3c'', PyStr ''John'') \<in> set example_store
   \<and> incompatible ''>'' StrKind IntKind
   \<and> success (fst (query no_float ''delete key > int ( 5 )'' example_store))
   \<and> message (fst (query no_float ''delete key > int ( 5 )'' example_store)) = None
   \<and> (PyStr ''1a2b3c'', PyStr ''John'')
       \<notin> set (data (fst (query no_float ''delete key > int ( 5 )'' example_store)))
   \<and> (PyStr ''1a2b3c'', PyStr ''John'')
       \<in> set (snd (query no_float ''delete key > int ( 5 )'' example_store))"
proof -
  let ?q = "\<lparr>action = ''delete'', element = ''key'', operator = ''>'',
            value_type = Some ''int'', qvalue = PyInt 5\<rparr>"
  have h1: "wf_store example_store" by (simp add: same_or_eq_def)
  have h2: "parse_query_string no_float ''delete key > int ( 5 )'' = Inr ?q"
    by code_simp
  have h3: "element ?q = ''value'' \<or> operator ?q \<noteq> ''=''" by simp
  have h4: "(PyStr ''1a2b3c'', PyStr ''John'') \<in> set example_store" by simp
  have h5: "incompatible (operator ?q)
              (kind_of (operand ?q (PyStr ''1a2b3c'', PyStr ''John''))) (kind_of (qvalue ?q))"
    by (simp add: incompatible_def operand_def real_kind_def)
  have h6: "incompatible ''>'' StrKind IntKind"
    by (simp add: incompatible_def real_kind_def)
  show ?thesis
    using h1 h2 h4 h6 C6_incompatible_kind_is_skipped [OF h1 h2 h3 h4 h5] by (simp add: same_or_eq_def)
qed

text \<open>
  C5 (as stated, it fails). The claim: for every \<open>X\<close>, the query
  \<open>delete value contains X\<close> removes exactly the entries whose value contains \<open>X\<close>. The
  value of a query is one run of printable characters and the parser ignores what
  follows it: for \<open>X = a b\<close> the query is run with the value \<open>a\<close>, and it deletes the
  entry whose value is \<open>xa\<close>, which does not contain \<open>a b\<close>.
\<close>

theorem C5_blank_in_literal_counterexample:
  "operator_contains (PyStr ''xa'') (PyStr ''a b'') = Inr False
   \<and> query no_float ''delete value contains a b'' [(PyInt 1, PyStr ''xa'')] =
       (Response True None [(PyInt 1, PyStr ''xa'')], [])"
  by code_simp

text \<open>
  C5, amended. On every store and for every \<open>X\<close> that is a non-empty run of printable
  characters (the ASCII characters 33 to 126, so no blank), the query
  \<open>delete value contains X\<close> removes from the store exactly the entries whose value
  contains \<open>X\<close>, returns exactly these entries (in the order of the store) as its data,
  and the same query run again on the store it leaves returns success with no match.
\<close>

theorem C5_delete_value_contains_token:
  assumes "wf_store d" and "X \<noteq> []" and "\<forall>c\<in>set X. printable c"
  shows "query B (''delete value contains '' @ X) d =
           (Response True None (filter (\<lambda>kv. operator_contains (snd kv) (PyStr X) = Inr True) d),
            filter (\<lambda>kv. operator_contains (snd kv) (PyStr X) \<noteq> Inr True) d)
       \<and> query B (''delete value contains '' @ X)
           (filter (\<lambda>kv. operator_contains (snd kv) (PyStr X) \<noteq> Inr True) d) =
           (Response True None [],
            filter (\<lambda>kv. operator_contains (snd kv) (PyStr X) \<noteq> Inr True) d)"
  by (rule delete_value_contains_parsed [OF assms(1) parse_delete_value_contains [OF assms(2,3)]])

theorem C5_delete_value_contains_token_witness:
  "wf_store example_store \<and> ''Mihai'' \<noteq> [] \<and> list_all printable ''Mihai''
   \<and> query no_float (''delete value contains '' @ ''Mihai'') example_store =
       (Response True None [(PyInt 10, PyStr ''Radu-Mihai'')],
        [(PyInt 1, PyInt 123), (PyStr ''1a2b3c'', PyStr ''John''), (PyInt 15, PyStr ''Onescu'')])
   \<and> query no_float (''delete value contains '' @ ''Mihai'')
         [(PyInt 1, PyInt 123), (PyStr ''1a2b3c'', PyStr ''John''), (PyInt 15, PyStr ''Onescu'')] =
       (Response True None [],
        [(PyInt 1, PyInt 123), (PyStr ''1a2b3c'', PyStr ''John''), (PyInt 15, PyStr ''Onescu'')])"
proof -
  have h1: "wf_store example_store" by (simp add: same_or_eq_def)
  have h2: "''Mihai'' \<noteq> []" by simp
  have h3: "list_all printable ''Mihai''" by code_simp
  then have h3': "\<forall>c\<in>set ''Mihai''. printable c" by (simp only: list_all_iff)
  show ?thesis
    using h1 h2 h3 C5_delete_value_contains_token [OF h1 h2 h3', of no_float]
    by (simp add: same_or_eq_def)
qed

text \<open>
  C8 (as stated, it fails). The claim: for every key \<open>K\<close> in the store, the query
  \<open>read key = K\<close> returns what \<open>read(K)\<close> returns. The value of a query is one run of
  printable characters: with the keys \<open>New York\<close> and \<open>New\<close> in the store,
  \<open>read(New York)\<close> returns the entry of \<open>New York\<close> and the query
  \<open>read key = New York\<close> the entry of \<open>New\<close>.
\<close>

theorem C8_blank_in_key_counterexample:
  "wf_store [(PyStr ''New York'', PyInt 1), (PyStr ''New'', PyInt 2)]
   \<and> read (PyStr ''New York'') [(PyStr ''New York'', PyInt 1), (PyStr ''New'', PyInt 2)] =
       (Response True None [(PyStr ''New York'', PyInt 1)],
        [(PyStr ''New York'', PyInt 1), (PyStr ''New'', PyInt 2)])
   \<and> query no_float ''read key = New York''
         [(PyStr ''New York'', PyInt 1), (PyStr ''New'', PyInt 2)] =
       (Response True None [(PyStr ''New'', PyInt 2)],
        [(PyStr ''New York'', PyInt 1), (PyStr ''New'', PyInt 2)])"
  by code_simp

text \<open>
  C8, amended. On every store, for a string key \<open>K\<close> that is a non-empty run of
  printable characters (the ASCII characters 33 to 126, so no blank), and for a key \<open>k\<close>
  written \<open>T ( L )\<close>, with \<open>T\<close> and \<open>L\<close> such runs and \<open>k\<close> what the conversion of \<open>L\<close>
  to the type \<open>T\<close> returns: when the key is in the store, the query \<open>read key = K\<close>
  (\<open>read key = T ( L )\<close>) returns what \<open>read\<close> of the key returns, the success response
  with the single entry of the key; when the key is not in the store, the query returns
  success with no match.
\<close>

theorem C8_key_equality_query_token:
  assumes "wf_store d"
  shows "(K \<noteq> [] \<and> (\<forall>c\<in>set K. printable c) \<longrightarrow>
            (case dict_find d (PyStr K) of
               Some v \<Rightarrow> query B (''read key = '' @ K) d = read (PyStr K) d
                         \<and> read (PyStr K) d = (Response True None [(PyStr K, v)], d)
             | None \<Rightarrow> query B (''read key = '' @ K) d = (Response True None [], d)))
       \<and> (T \<noteq> [] \<and> (\<forall>c\<in>set T. printable c) \<and> L \<noteq> [] \<and> (\<forall>c\<in>set L. printable c)
            \<and> parse_value_to_type B L T = Inr k \<longrightarrow>
            (case dict_find d k of
               Some v \<Rightarrow> query B (''read key = '' @ T @ '' ( '' @ L @ '' )'') d = read k d
                         \<and> read k d = (Response True None [(k, v)], d)
             | None \<Rightarrow> query B (''read key = '' @ T @ '' ( '' @ L @ '' )'') d
                         = (Response True None [], d)))"
proof (intro conjI impI)
  assume "K \<noteq> [] \<and> (\<forall>c\<in>set K. printable c)"
  then have "K \<noteq> []" and "\<forall>c\<in>set K. printable c" by simp_all
  then have "parse_query_string B (''read key = '' @ K) =
           Inr \<lparr>action = ''read'', element = ''key'', operator = ''='',
                value_type = None, qvalue = PyStr K\<rparr>"
    by (rule parse_read_key_eq)
  from key_equality_query_parsed [OF assms this]
  show "case dict_find d (PyStr K) of
               Some v \<Rightarrow> query B (''read key = '' @ K) d = read (PyStr K) d
                         \<and> read (PyStr K) d = (Response True None [(PyStr K, v)], d)
             | None \<Rightarrow> query B (''read key = '' @ K) d = (Response True None [], d)" .
next
  assume "T \<noteq> [] \<and> (\<forall>c\<in>set T. printable c) \<and> L \<noteq> [] \<and> (\<forall>c\<in>set L. printable c)
            \<and> parse_value_to_type B L T = Inr k"
  then have "T \<noteq> []" and "\<forall>c\<in>set T. printable c" and "L \<noteq> []"
    and "\<forall>c\<in>set L. printable c" and "parse_value_to_type B L T = Inr k" by simp_all
  then have "parse_query_string B (''read key = '' @ T @ '' ( '' @ L @ '' )'') =
           Inr \<lparr>action = ''read'', element = ''key'', operator = ''='',
                value_type = Some T, qvalue = k\<rparr>"
    by (rule parse_read_key_eq_typed)
  from key_equality_query_parsed [OF assms this]
  show "case dict_find d k of
               Some v \<Rightarrow> query B (''read key = '' @ T @ '' ( '' @ L @ '' )'') d = read k d
                         \<and> read k d = (Response True None [(k, v)], d)
             | None \<Rightarrow> query B (''read key = '' @ T @ '' ( '' @ L @ '' )'') d
                         = (Response True None [], d)" .
qed

theorem C8_key_equality_query_token_witness:
  "wf_store example_store
   \<and> ''1a2b3c'' \<noteq> [] \<and> list_all printable ''1a2b3c''
   \<and> query no_float (''read key = '' @ ''1a2b3c'') example_store
       = read (PyStr ''1a2b3c'') example_store
   \<and> read (PyStr ''1a2b3c'') example_store =
       (Response True None [(PyStr ''1a2b3c'', PyStr ''John'')], example_store)
   \<and> ''int'' \<noteq> [] \<and> list_all printable ''int'' \<and> ''10'' \<noteq> [] \<and> list_all printable ''10''
   \<and> parse_value_to_type no_float ''10'' ''int'' = Inr (PyInt 10)
   \<and> query no_float (''read key = '' @ ''int'' @ '' ( '' @ ''10'' @ '' )'') example_store
       = read (PyInt 10) example_store
   \<and> read (PyInt 10) example_store =
       (Response True None [(PyInt 10, PyStr ''Radu-Mihai'')], example_store)
   \<and> query no_float (''read key = '' @ ''10'') example_store
       = (Response True None [], example_store)"
proof -
  have h1: "wf_store example_store" by (simp add: same_or_eq_def)
  have h2: "list_all printable ''1a2b3c''" "list_all printable ''int''"
    "list_all printable ''10''" by code_simp+
  then have h2': "\<forall>c\<in>set ''1a2b3c''. printable c" "\<forall>c\<in>set ''int''. printable c"
    "\<forall>c\<in>set ''10''. printable c" by (simp_all only: list_all_iff)
  have h3: "parse_value_to_type no_float ''10'' ''int'' = Inr (PyInt 10)" by code_simp
  have d1: "dict_find example_store (PyStr ''1a2b3c'') = Some (PyStr ''John'')"
    and d2: "dict_find example_store (PyInt 10) = Some (PyStr ''Radu-Mihai'')"
    and d3: "dict_find example_store (PyStr ''10'') = None"
    by (simp_all add: same_or_eq_def)
  note t = C8_key_equality_query_token [OF h1, where B = no_float]
  from t [where K = "''1a2b3c''"] h2'(1) d1
  have a: "query no_float (''read key = '' @ ''1a2b3c'') example_store
       = read (PyStr ''1a2b3c'') example_store
     \<and> read (PyStr ''1a2b3c'') example_store =
       (Response True None [(PyStr ''1a2b3c'', PyStr ''John'')], example_store)" by simp
  from t [where T = "''int''" and L = "''10''" and k = "PyInt 10"] h2'(2,3) h3 d2
  have b: "query no_float (''read key = '' @ ''int'' @ '' ( '' @ ''10'' @ '' )'') example_store
       = read (PyInt 10) example_store
     \<and> read (PyInt 10) example_store =
       (Response True None [(PyInt 10, PyStr ''Radu-Mihai'')], example_store)" by simp
  from t [where K = "''10''"] h2'(3) d3
  have c: "query no_float (''read key = '' @ ''10'') example_store
       = (Response True None [], example_store)" by simp
  from h1 h2 h3 a b c show ?thesis by simp
qed

text \<open>
  C2 (as stated, it fails). The claim: every query string that deviates from the grammar
  of four or six tokens gets the failure response "Invalid query syntax.". The parser
  matches at the start of the string and ignores what follows a complete match, and a
  type name that is not followed by \<open>( literal )\<close> is read as a plain literal: a string
  of five tokens and a string with an unclosed parenthesis both get a success response.
\<close>

theorem C2_surplus_tokens_counterexample:
  "length (spec_tokens ''read key = 1a2b3c now'') = 5
   \<and> query no_float ''read key = 1a2b3c now'' example_store =
       (Response True None [(PyStr ''1a2b3c'', PyStr ''John'')], example_store)
   \<and> spec_tokens ''read key > int ( 5'' = [''read'', ''key'', ''>'', ''int'', ''('', ''5'']
   \<and> query no_float ''read key > int ( 5'' example_store = (Response True None [], example_store)"
  by code_simp

text \<open>
  C2, amended. The query returns the failure response "Invalid query syntax.", with the
  store unchanged, exactly on the strings whose tokens are not well begun and on the
  strings whose value has the typed form \<open>T ( L )\<close> when the conversion of \<open>L\<close> to \<open>T\<close>
  raises (\<open>T\<close> is not a type name, or the builtin raises on \<open>L\<close>); on every other
  string it returns a success response with no message. The tokens are well begun when
  the first is \<open>read\<close> or \<open>delete\<close>, the second is \<open>key\<close> or \<open>value\<close>, an operator
  keyword matches at the start of the third and a printable character follows the
  operator, in the third token or at the start of the fourth.
\<close>

theorem C2_invalid_query_syntax:
  "(query B s d = (Response False (Some ''Invalid query syntax.'') [], d)
      \<longleftrightarrow> (\<not> well_begun (spec_tokens s)
           \<or> (\<exists>T L err. typed_value (value_tokens (spec_tokens s)) = Some (T, L)
                  \<and> parse_value_to_type B L T = Inl err)))
   \<and> (query B s d = (Response False (Some ''Invalid query syntax.'') [], d)
      \<or> (\<exists>ms d'. query B s d = (Response True None ms, d')))"
proof -
  let ?bad = "(Response False (Some ''Invalid query syntax.'') [], d)"
  let ?typed = "\<exists>T L err. typed_value (value_tokens (spec_tokens s)) = Some (T, L)
                  \<and> parse_value_to_type B L T = Inl err"
  have fails: "query B s d = ?bad" if "parse_query_string B s = Inl err" for err
    using that by (simp add: query_parse_error send_error_def)
  have ok: "\<exists>ms d'. query B s d = (Response True None ms, d')"
    if "parse_query_string B s = Inr q" for q
    using that by (rule query_parse_ok)
  have ne: "query B s d \<noteq> ?bad" if "parse_query_string B s = Inr q" for q
  proof -
    from ok [OF that] obtain ms d' where "query B s d = (Response True None ms, d')"
      by blast
    then have "success (fst (query B s d))" by (simp add: Response_def)
    then show ?thesis by (auto simp: Response_def)
  qed
  have p: "(\<exists>err. parse_query_string B s = Inl err)
             \<longleftrightarrow> (\<not> well_begun (spec_tokens s) \<or> ?typed)"
  proof (cases "well_begun (spec_tokens s)")
    case True
    from well_begun_parse_fails_iff [OF True, of B] True show ?thesis by blast
  next
    case False
    with parse_well_begun [of B s] have "\<exists>err. parse_query_string B s = Inl err"
      by (cases "parse_query_string B s") auto
    with False show ?thesis by blast
  qed
  have q: "query B s d = ?bad \<longleftrightarrow> (\<exists>err. parse_query_string B s = Inl err)"
    using fails ne by (cases "parse_query_string B s") auto
  have r: "query B s d = ?bad \<or> (\<exists>ms d'. query B s d = (Response True None ms, d'))"
    using fails ok by (cases "parse_query_string B s") auto
  from p q r show ?thesis by (simp only:)
qed

theorem C2_invalid_query_syntax_witness:
  "\<not> well_begun (spec_tokens ''read key <='')
   \<and> query no_float ''read key <='' example_store =
       (Response False (Some ''Invalid query syntax.'') [], example_store)
   \<and> \<not> well_begun (spec_tokens ''read something > int ( 5 )'')
   \<and> query no_float ''read something > int ( 5 )'' example_store =
       (Response False (Some ''Invalid query syntax.'') [], example_store)
   \<and> typed_value (value_tokens (spec_tokens ''read key > int ( abc )'')) = Some (''int'', ''abc'')
   \<and> parse_value_to_type no_float ''abc'' ''int'' = Inl ValueError
   \<and> query no_float ''read key > int ( abc )'' example_store =
       (Response False (Some ''Invalid query syntax.'') [], example_store)
   \<and> well_begun (spec_tokens ''read key > int ( 5'')
   \<and> typed_value (value_tokens (spec_tokens ''read key > int ( 5'')) = None
   \<and> (\<exists>ms d'. query no_float ''read key > int ( 5'' example_store = (Response True None ms, d'))"
proof -
  have h1: "\<not> well_begun (spec_tokens ''read key <='')" by code_simp
  have h2: "\<not> well_begun (spec_tokens ''read something > int ( 5 )'')" by code_simp
  have h3: "typed_value (value_tokens (spec_tokens ''read key > int ( abc )''))
              = Some (''int'', ''abc'')" by code_simp
  have h4: "parse_value_to_type no_float ''abc'' ''int'' = Inl ValueError" by code_simp
  have h5: "well_begun (spec_tokens ''read key > int ( 5'')" by code_simp
  have h6: "typed_value (value_tokens (spec_tokens ''read key > int ( 5'')) = None"
    by code_simp
  have a: "query no_float ''read key <='' example_store =
       (Response False (Some ''Invalid query syntax.'') [], example_store)"
    using h1 C2_invalid_query_syntax [of no_float "''read key <=''" example_store] by blast
  have b: "query no_float ''read something > int ( 5 )'' example_store =
       (Response False (Some ''Invalid query syntax.'') [], example_store)"
    using h2 C2_invalid_query_syntax [of no_float "''read something > int ( 5 )''" example_store]
    by blast
  have c: "query no_float ''read key > int ( abc )'' example_store =
       (Response False (Some ''Invalid query syntax.'') [], example_store)"
    using h3 h4 C2_invalid_query_syntax [of no_float "''read key > int ( abc )''" example_store]
    by blast
  have d: "\<exists>ms d'. query no_float ''read key > int ( 5'' example_store
             = (Response True None ms, d')"
    using h5 h6 C2_invalid_query_syntax [of no_float "''read key > int ( 5''" example_store]
    by (simp only: option.distinct simp_thms) blast
  from h1 h2 h3 h4 h5 h6 a b c d show ?thesis by (simp only: simp_thms)
qed

end
